theory Spec2Isabelle
  imports Complex_Main "HOL-Library.Sublist"
begin

section \<open>JavaScript strings\<close>

text \<open>
  A JavaScript string is a sequence of UTF-16 code units; \<open>length\<close> counts code units.
  A code unit is modelled as a natural number, so that the em dash (U+2014), the
  Unicode white space of \<open>\s\<close> and \<open>trim()\<close>, and the line terminators excluded by
  \<open>.\<close> are the code units the engine sees.  \<open>js\<close> embeds an ASCII literal.
\<close>

type_synonym cu = nat
type_synonym jsstring = "cu list"

definition js :: "string \<Rightarrow> jsstring" where
  "js s = map of_char s"

definition isDigit :: "cu \<Rightarrow> bool" where
  "isDigit c = (48 \<le> c \<and> c \<le> 57)"

definition isAlpha :: "cu \<Rightarrow> bool" where
  "isAlpha c = ((65 \<le> c \<and> c \<le> 90) \<or> (97 \<le> c \<and> c \<le> 122))"

text \<open>The \<open>\w\<close> class of a regular expression without the \<open>u\<close> flag: \<open>[A-Za-z0-9_]\<close>.\<close>

definition isWordChar :: "cu \<Rightarrow> bool" where
  "isWordChar c = (isAlpha c \<or> isDigit c \<or> c = 95)"

text \<open>Line terminators: LF, CR, U+2028, U+2029.\<close>

definition isLineTerminator :: "cu \<Rightarrow> bool" where
  "isLineTerminator c = (c = 10 \<or> c = 13 \<or> c = 8232 \<or> c = 8233)"

text \<open>
  White space of \<open>\s\<close> and of \<open>String.prototype.trim\<close>: TAB, VT, FF, SP, NBSP, the
  Unicode space separators, the byte order mark, and the line terminators.
\<close>

definition isSpace :: "cu \<Rightarrow> bool" where
  "isSpace c = (c = 9 \<or> c = 11 \<or> c = 12 \<or> c = 32 \<or> c = 160 \<or> c = 5760
     \<or> (8192 \<le> c \<and> c \<le> 8202) \<or> c = 8239 \<or> c = 8287 \<or> c = 12288 \<or> c = 65279
     \<or> isLineTerminator c)"

text \<open>
  \<open>toLowerCase\<close> on the letters A to Z.  JavaScript also lowers the upper-case letters
  outside ASCII; the model leaves every code unit from 128 on as it is, so it is exact
  on ASCII text.
\<close>

definition lowerCu :: "cu \<Rightarrow> cu" where
  "lowerCu c = (if 65 \<le> c \<and> c \<le> 90 then c + 32 else c)"

definition toLowerCase :: "jsstring \<Rightarrow> jsstring" where
  "toLowerCase s = map lowerCu s"

definition trim :: "jsstring \<Rightarrow> jsstring" where
  "trim s = rev (dropWhile isSpace (rev (dropWhile isSpace s)))"

fun startsWith :: "jsstring \<Rightarrow> jsstring \<Rightarrow> bool" where
  "startsWith s [] = True"
| "startsWith [] (p # ps) = False"
| "startsWith (c # s) (p # ps) = (c = p \<and> startsWith s ps)"

text \<open>\<open>s.includes(t)\<close>, named \<open>str_includes\<close> here: \<open>t\<close> starts at some index of \<open>s\<close>.\<close>

fun str_includes :: "jsstring \<Rightarrow> jsstring \<Rightarrow> bool" where
  "str_includes [] t = (t = [])"
| "str_includes (c # s) t = (startsWith (c # s) t \<or> str_includes s t)"

text \<open>
  The pieces of \<open>s.split(sep)\<close> for a separator of one code unit, as far as the
  destructuring \<open>[num, den]\<close> reads them: the text before the first separator, and the
  text between the first and the second (\<open>None\<close> is \<open>undefined\<close>: no separator).
\<close>

definition split_first_two :: "cu \<Rightarrow> jsstring \<Rightarrow> jsstring \<times> jsstring option" where
  "split_first_two sep s =
     (takeWhile (\<lambda>c. c \<noteq> sep) s,
      (case dropWhile (\<lambda>c. c \<noteq> sep) s of
         [] \<Rightarrow> None
       | _ # r \<Rightarrow> Some (takeWhile (\<lambda>c. c \<noteq> sep) r)))"

section \<open>JavaScript numbers\<close>

text \<open>
  A number is a double: a rational that a double represents, an infinity or NaN (the
  sign of zero is not modelled).  \<open>to_double\<close> rounds a rational to the nearest double,
  ties to even, as a numeric literal and every arithmetic operation do; what rounds to
  \<open>2 ^ 1024\<close> or beyond is an infinity, what rounds below the least subnormal is zero.
\<close>

datatype jsnum = Num rat | PosInf | NegInf | NaN

fun num_truthy :: "jsnum \<Rightarrow> bool" where
  "num_truthy (Num q) = (q \<noteq> 0)"
| "num_truthy NaN = False"
| "num_truthy _ = True"

fun js_neg :: "jsnum \<Rightarrow> jsnum" where
  "js_neg (Num q) = Num (- q)"
| "js_neg PosInf = NegInf"
| "js_neg NegInf = PosInf"
| "js_neg NaN = NaN"

text \<open>Powers of two with an integer exponent.\<close>

definition pow2 :: "int \<Rightarrow> rat" where
  "pow2 k = (if 0 \<le> k then 2 ^ nat k else 1 / 2 ^ nat (- k))"

text \<open>
  The binary exponent of a positive rational below \<open>2 ^ 1024\<close>: \<open>e\<close> with
  \<open>2 ^ e \<le> q < 2 ^ (e + 1)\<close>, and -1022 (the exponent of the subnormals) for a smaller
  \<open>q\<close>.  The first argument bounds the number of halvings and doublings.
\<close>

fun expo_ge1 :: "nat \<Rightarrow> rat \<Rightarrow> int" where
  "expo_ge1 k q = (if k = 0 \<or> q < 2 then 0 else 1 + expo_ge1 (k - 1) (q / 2))"

fun expo_lt1 :: "nat \<Rightarrow> rat \<Rightarrow> int" where
  "expo_lt1 k q = (if k = 0 \<or> 1 \<le> q then 0 else expo_lt1 (k - 1) (q * 2) - 1)"

declare expo_ge1.simps [simp del] expo_lt1.simps [simp del]

definition binary_exponent :: "rat \<Rightarrow> int" where
  "binary_exponent q = (if 1 \<le> q then expo_ge1 1024 q else expo_lt1 1022 q)"

text \<open>Rounding to the nearest integer, a tie to the even one.\<close>

definition round_even :: "rat \<Rightarrow> int" where
  "round_even x =
     (let f = \<lfloor>x\<rfloor>; d = x - of_int f
      in if d < 1 / 2 then f else if 1 / 2 < d then f + 1 else if even f then f else f + 1)"

text \<open>A double has 53 significant bits: the unit in the last place is \<open>2 ^ (e - 52)\<close>.\<close>

definition to_double_pos :: "rat \<Rightarrow> jsnum" where
  "to_double_pos q =
     (if 2 ^ 1024 \<le> q then PosInf
      else
        (let ulp = pow2 (binary_exponent q - 52);
             v = of_int (round_even (q / ulp)) * ulp
         in if 2 ^ 1024 \<le> v then PosInf else Num v))"

definition to_double :: "rat \<Rightarrow> jsnum" where
  "to_double q =
     (if q = 0 then Num 0
      else if 0 < q then to_double_pos q
      else js_neg (to_double_pos (- q)))"

fun js_add :: "jsnum \<Rightarrow> jsnum \<Rightarrow> jsnum" where
  "js_add (Num a) (Num b) = to_double (a + b)"
| "js_add NaN _ = NaN"
| "js_add _ NaN = NaN"
| "js_add PosInf NegInf = NaN"
| "js_add NegInf PosInf = NaN"
| "js_add PosInf _ = PosInf"
| "js_add NegInf _ = NegInf"
| "js_add _ PosInf = PosInf"
| "js_add _ NegInf = NegInf"

fun js_mul :: "jsnum \<Rightarrow> jsnum \<Rightarrow> jsnum" where
  "js_mul (Num a) (Num b) = to_double (a * b)"
| "js_mul NaN _ = NaN"
| "js_mul _ NaN = NaN"
| "js_mul (Num a) PosInf = (if a = 0 then NaN else if 0 < a then PosInf else NegInf)"
| "js_mul (Num a) NegInf = (if a = 0 then NaN else if 0 < a then NegInf else PosInf)"
| "js_mul PosInf (Num b) = (if b = 0 then NaN else if 0 < b then PosInf else NegInf)"
| "js_mul NegInf (Num b) = (if b = 0 then NaN else if 0 < b then NegInf else PosInf)"
| "js_mul PosInf PosInf = PosInf"
| "js_mul NegInf NegInf = PosInf"
| "js_mul PosInf NegInf = NegInf"
| "js_mul NegInf PosInf = NegInf"

text \<open>Division: a finite dividend over zero is an infinity, zero over zero is NaN.\<close>

fun js_div :: "jsnum \<Rightarrow> jsnum \<Rightarrow> jsnum" where
  "js_div (Num a) (Num b) =
     (if b \<noteq> 0 then to_double (a / b)
      else if a = 0 then NaN else if 0 < a then PosInf else NegInf)"
| "js_div NaN _ = NaN"
| "js_div _ NaN = NaN"
| "js_div (Num a) _ = Num 0"
| "js_div PosInf (Num b) = (if 0 \<le> b then PosInf else NegInf)"
| "js_div NegInf (Num b) = (if 0 \<le> b then NegInf else PosInf)"
| "js_div _ _ = NaN"

definition digitVal :: "cu \<Rightarrow> nat" where
  "digitVal c = c - 48"

text \<open>The value of a run of decimal digits, most significant first.\<close>

definition decimal :: "jsstring \<Rightarrow> nat" where
  "decimal ds = foldl (\<lambda>acc c. 10 * acc + digitVal c) 0 ds"

text \<open>
  \<open>parseInt(s)\<close> without a radix: leading white space, an optional sign, then the
  longest run of decimal digits, whose value is rounded to a double; NaN when there is
  none.  The hexadecimal prefix \<open>0x\<close> is not modelled: the arguments in this program
  are \<open>\d+\<close> captures or \<open>'0'\<close>.
\<close>

definition parseInt :: "jsstring \<Rightarrow> jsnum" where
  "parseInt s =
     (let t = dropWhile isSpace s;
          neg = (case t of [] \<Rightarrow> False | c # _ \<Rightarrow> c = 45);
          u = (case t of [] \<Rightarrow> [] | c # r \<Rightarrow> if c = 45 \<or> c = 43 then r else t);
          ds = takeWhile isDigit u
      in if ds = [] then NaN
         else if neg then to_double (- of_nat (decimal ds))
         else to_double (of_nat (decimal ds)))"

text \<open>
  \<open>parseFloat(s)\<close>: leading white space, an optional sign, then the longest prefix that
  is a decimal literal (\<open>Infinity\<close>, digits with an optional fraction, or a fraction
  alone, with an optional exponent), whose value is rounded to a double; NaN when there
  is none.
\<close>

definition exponent_part :: "jsstring \<Rightarrow> int" where
  "exponent_part r =
     (case r of
        [] \<Rightarrow> 0
      | e # r1 \<Rightarrow>
          if e = 101 \<or> e = 69 then
            (let neg = (case r1 of [] \<Rightarrow> False | c # _ \<Rightarrow> c = 45);
                 r2 = (case r1 of [] \<Rightarrow> [] | c # r' \<Rightarrow> if c = 45 \<or> c = 43 then r' else r1);
                 ds = takeWhile isDigit r2
             in if ds = [] then 0
                else if neg then - int (decimal ds) else int (decimal ds))
          else 0)"

definition pow10 :: "int \<Rightarrow> rat" where
  "pow10 e = (if 0 \<le> e then 10 ^ nat e else 1 / 10 ^ nat (- e))"

definition parseFloat :: "jsstring \<Rightarrow> jsnum" where
  "parseFloat s =
     (let t = dropWhile isSpace s;
          neg = (case t of [] \<Rightarrow> False | c # _ \<Rightarrow> c = 45);
          u = (case t of [] \<Rightarrow> [] | c # r \<Rightarrow> if c = 45 \<or> c = 43 then r else t);
          sgn = (\<lambda>x. if neg then js_neg x else x)
      in if startsWith u (js ''Infinity'') then sgn PosInf
         else
           (let ip = takeWhile isDigit u;
                r1 = dropWhile isDigit u;
                hasDot = (case r1 of [] \<Rightarrow> False | c # _ \<Rightarrow> c = 46);
                fp = (if hasDot then takeWhile isDigit (tl r1) else []);
                r2 = (if hasDot then dropWhile isDigit (tl r1) else r1)
            in if ip = [] \<and> fp = [] then NaN
               else sgn (to_double (of_nat (decimal (ip @ fp)) / 10 ^ length fp
                                    * pow10 (exponent_part r2)))))"

section \<open>Regular expressions\<close>

text \<open>
  The regular expressions of the program are matched by the backtracking semantics of
  ECMAScript: a matcher returns the list of its outcomes in the order the engine tries
  them, and the match is the first outcome of the whole pattern at the leftmost start
  index that has one.  Quantifiers are greedy.  The fragment covers what the program's
  patterns use: single characters and classes, a quantified class, sequence,
  alternation, the optional group, capturing groups, \<open>^\<close>, \<open>$\<close> and \<open>\b\<close> (no
  \<open>m\<close> flag: \<open>^\<close> and \<open>$\<close> are the ends of the input).
\<close>

datatype cls =
    One cu       \<comment> \<open>a literal character\<close>
  | OneI cu      \<comment> \<open>a literal character under the \<open>i\<close> flag\<close>
  | Digit        \<comment> \<open>\<open>\d\<close>\<close>
  | Space        \<comment> \<open>\<open>\s\<close>\<close>
  | Alpha        \<comment> \<open>\<open>[a-zA-Z]\<close>\<close>
  | AnyChar      \<comment> \<open>\<open>.\<close> without the \<open>s\<close> flag\<close>
  | Not cu       \<comment> \<open>\<open>[^c]\<close>\<close>

text \<open>
  Under the \<open>i\<close> flag (no \<open>u\<close> flag) two code units match when their canonical upper
  cases agree, and a code unit outside ASCII never canonicalises into ASCII; so an
  ASCII letter matches exactly its two cases.  \<open>OneI\<close> is used for ASCII characters and
  for U+2014, which has no case.
\<close>

fun in_cls :: "cls \<Rightarrow> cu \<Rightarrow> bool" where
  "in_cls (One c) x = (x = c)"
| "in_cls (OneI c) x = (lowerCu x = lowerCu c)"
| "in_cls Digit x = isDigit x"
| "in_cls Space x = isSpace x"
| "in_cls Alpha x = isAlpha x"
| "in_cls AnyChar x = (\<not> isLineTerminator x)"
| "in_cls (Not c) x = (x \<noteq> c)"

datatype re =
    Eps
  | Chr cls                      \<comment> \<open>one character of the class\<close>
  | Rep cls nat "nat option"     \<comment> \<open>a class under a greedy quantifier \<open>{min,max}\<close>\<close>
  | Seq re re
  | Alt re re
  | Opt re                       \<comment> \<open>\<open>(?:r)?\<close>\<close>
  | Grp nat re                   \<comment> \<open>capturing group number k\<close>
  | Bol                          \<comment> \<open>\<open>^\<close>\<close>
  | Eol                          \<comment> \<open>\<open>$\<close>\<close>
  | WordB                        \<comment> \<open>\<open>\b\<close>\<close>

text \<open>
  A matcher state: the text before the current index (reversed), the text from the
  index on, and the captures so far (latest first).
\<close>

type_synonym mstate = "jsstring \<times> jsstring \<times> (nat \<times> jsstring) list"

definition headIsWord :: "jsstring \<Rightarrow> bool" where
  "headIsWord s = (case s of [] \<Rightarrow> False | c # _ \<Rightarrow> isWordChar c)"

fun ms :: "re \<Rightarrow> mstate \<Rightarrow> mstate list" where
  "ms Eps s = [s]"
| "ms (Chr k) (b, r, c) =
     (case r of [] \<Rightarrow> [] | x # r' \<Rightarrow> if in_cls k x then [(x # b, r', c)] else [])"
| "ms (Rep k mn mx) (b, r, c) =
     (let run = length (takeWhile (in_cls k) r);
          hi = (case mx of None \<Rightarrow> run | Some m \<Rightarrow> min m run)
      in map (\<lambda>n. (rev (take n r) @ b, drop n r, c)) (rev [mn ..< Suc hi]))"
| "ms (Seq p q) s = concat (map (ms q) (ms p s))"
| "ms (Alt p q) s = ms p s @ ms q s"
| "ms (Opt p) s =
     filter (\<lambda>s'. length (fst (snd s')) \<noteq> length (fst (snd s))) (ms p s) @ [s]"
| "ms (Grp k p) (b, r, c) =
     map (\<lambda>(b', r', c'). (b', r', (k, take (length r - length r') r) # c')) (ms p (b, r, c))"
| "ms Bol (b, r, c) = (if b = [] then [(b, r, c)] else [])"
| "ms Eol (b, r, c) = (if r = [] then [(b, r, c)] else [])"
| "ms WordB (b, r, c) = (if headIsWord b \<noteq> headIsWord r then [(b, r, c)] else [])"

text \<open>The search over start indices, leftmost first.\<close>

fun re_search :: "re \<Rightarrow> jsstring \<Rightarrow> jsstring \<Rightarrow> mstate option" where
  "re_search p b [] = (case ms p (b, [], []) of [] \<Rightarrow> None | s # _ \<Rightarrow> Some s)"
| "re_search p b (x # r) =
     (case ms p (b, x # r, []) of [] \<Rightarrow> re_search p (x # b) r | s # _ \<Rightarrow> Some s)"

text \<open>\<open>text.match(p)\<close> without the \<open>g\<close> flag: the captures of the first match.\<close>

definition re_match :: "re \<Rightarrow> jsstring \<Rightarrow> (nat \<rightharpoonup> jsstring) option" where
  "re_match p text = map_option (\<lambda>(b, r, c). map_of c) (re_search p [] text)"

definition re_test :: "re \<Rightarrow> jsstring \<Rightarrow> bool" where
  "re_test p text = (re_search p [] text \<noteq> None)"

text \<open>A literal text as a pattern, case-sensitive and under the \<open>i\<close> flag.\<close>

definition lit :: "string \<Rightarrow> re" where
  "lit s = foldr (\<lambda>c p. Seq (Chr (One (of_char c))) p) s Eps"

definition litI :: "string \<Rightarrow> re" where
  "litI s = foldr (\<lambda>c p. Seq (Chr (OneI (of_char c))) p) s Eps"

definition seqs :: "re list \<Rightarrow> re" where
  "seqs ps = foldr Seq ps Eps"

text \<open>\<open>m[k]\<close> of a match where group k took part; the empty text stands for \<open>undefined\<close>.\<close>

definition grp :: "(nat \<rightharpoonup> jsstring) \<Rightarrow> nat \<Rightarrow> jsstring" where
  "grp g k = (case g k of None \<Rightarrow> [] | Some x \<Rightarrow> x)"

section \<open>SimpleScrapingService: the field normalizer\<close>

record parsed_ingredient =
  name :: jsstring
  amount :: jsnum
  unit :: "jsstring option"

text \<open>
  \<open>parseFraction\<close>: with a slash, the quotient of the two numbers around the first slash;
  otherwise \<open>parseFloat(str) || 1\<close>.
\<close>

definition parseFraction :: "jsstring \<Rightarrow> jsnum" where
  "parseFraction str =
     (if str_includes str (js ''/'') then
        (case split_first_two 47 str of
           (num, den) \<Rightarrow>
             js_div (parseFloat num) (case den of None \<Rightarrow> NaN | Some d \<Rightarrow> parseFloat d))
      else (let v = parseFloat str in if num_truthy v then v else Num 1))"

text \<open>\<open>/^(\d+(?:\/\d+)?(?:\.\d+)?)\s*([a-zA-Z]+)?\s+(.+)$/\<close>\<close>

definition ingredient_re :: re where
  "ingredient_re =
     seqs [Bol,
           Grp 1 (seqs [Rep Digit 1 None,
                        Opt (seqs [Chr (One 47), Rep Digit 1 None]),
                        Opt (seqs [Chr (One 46), Rep Digit 1 None])]),
           Rep Space 0 None,
           Opt (Grp 2 (Rep Alpha 1 None)),
           Rep Space 1 None,
           Grp 3 (Rep AnyChar 1 None),
           Eol]"

definition parseIngredient :: "jsstring \<Rightarrow> parsed_ingredient" where
  "parseIngredient text =
     (case re_match ingredient_re text of
        Some m \<Rightarrow> \<lparr>name = trim (grp m 3), amount = parseFraction (grp m 1), unit = m 2\<rparr>
      | None \<Rightarrow> \<lparr>name = text, amount = Num 1, unit = None\<rparr>)"

text \<open>\<open>/(\d+)\s*h(?:our|r)?/i\<close> and \<open>/(\d+)\s*m(?:in|inute)?/i\<close>\<close>

definition hour_re :: re where
  "hour_re = seqs [Grp 1 (Rep Digit 1 None), Rep Space 0 None, Chr (OneI 104),
                   Opt (Alt (litI ''our'') (litI ''r''))]"

definition minute_re :: re where
  "minute_re = seqs [Grp 1 (Rep Digit 1 None), Rep Space 0 None, Chr (OneI 109),
                     Opt (Alt (litI ''in'') (litI ''inute''))]"

definition parseTimeFromText :: "jsstring \<Rightarrow> jsnum option" where
  "parseTimeFromText text =
     (if text = [] then None
      else
        (let hourMatch = re_match hour_re text;
             minuteMatch = re_match minute_re text;
             minutes0 = Num 0;
             minutes1 = (case hourMatch of
                           None \<Rightarrow> minutes0
                         | Some m \<Rightarrow> js_add minutes0 (js_mul (parseInt (grp m 1)) (Num 60)));
             minutes2 = (case minuteMatch of
                           None \<Rightarrow> minutes1
                         | Some m \<Rightarrow> js_add minutes1 (parseInt (grp m 1)))
         in if num_truthy minutes2 then Some minutes2 else None))"

text \<open>\<open>/PT(?:(\d+)H)?(?:(\d+)M)?/\<close>\<close>

definition iso_re :: re where
  "iso_re = seqs [lit ''PT'',
                  Opt (seqs [Grp 1 (Rep Digit 1 None), Chr (One 72)]),
                  Opt (seqs [Grp 2 (Rep Digit 1 None), Chr (One 77)])]"

text \<open>\<open>m[k] || '0'\<close>\<close>

definition grp_or_zero :: "(nat \<rightharpoonup> jsstring) \<Rightarrow> nat \<Rightarrow> jsstring" where
  "grp_or_zero m k = (if grp m k = [] then js ''0'' else grp m k)"

text \<open>\<open>parseTime\<close>; the argument \<open>None\<close> is \<open>undefined\<close>, the result \<open>None\<close> is \<open>undefined\<close>.\<close>

definition parseTime :: "jsstring option \<Rightarrow> jsnum option" where
  "parseTime timeString =
     (case timeString of
        None \<Rightarrow> None
      | Some t \<Rightarrow>
          if t = [] then None
          else if startsWith t (js ''PT'') then
            (case re_match iso_re t of
               Some m \<Rightarrow>
                 (let hours = parseInt (grp_or_zero m 1);
                      minutes = parseInt (grp_or_zero m 2)
                  in Some (js_add (js_mul hours (Num 60)) minutes))
             | None \<Rightarrow> parseTimeFromText t)
          else parseTimeFromText t)"

section \<open>SimpleScrapingService: the content classifier\<close>

text \<open>The texts of the navigation patterns: \<open>/\blog in\b/\<close>, \<open>/\bsign up\b/\<close>, and so on.\<close>

definition navWords :: "string list" where
  "navWords =
     [''log in'', ''sign up'', ''menu'', ''home'', ''about us'', ''contact'',
      ''search'', ''subscribe'', ''newsletter'', ''my account'', ''settings'',
      ''help'', ''privacy'', ''terms'', ''cookies'', ''accept all cookies'',
      ''advertisement'', ''follow us'', ''social media'']"

definition navPatterns :: "re list" where
  "navPatterns = map (\<lambda>w. seqs [WordB, lit w, WordB]) navWords"

text \<open>
  \<open>/^[^.]{10,100}$/\<close>, \<open>/cooked in.*sauce$/\<close>, \<open>/style.*recipe$/\<close> and
  \<open>/^.*D.*recipe\.?$/i\<close>, where D stands for the em dash U+2014 (code unit 8212).
\<close>

definition descriptionPatterns :: "re list" where
  "descriptionPatterns =
     [seqs [Bol, Rep (Not 46) 10 (Some 100), Eol],
      seqs [lit ''cooked in'', Rep AnyChar 0 None, lit ''sauce'', Eol],
      seqs [lit ''style'', Rep AnyChar 0 None, lit ''recipe'', Eol],
      seqs [Bol, Rep AnyChar 0 None, Chr (OneI 8212), Rep AnyChar 0 None, litI ''recipe'',
            Rep (OneI 46) 0 (Some 1), Eol]]"

definition isRecipeDescription :: "jsstring \<Rightarrow> bool" where
  "isRecipeDescription text = list_ex (\<lambda>p. re_test p (trim text)) descriptionPatterns"

definition isNavigationText :: "jsstring \<Rightarrow> bool \<Rightarrow> bool" where
  "isNavigationText text isInstructionContext =
     (let lowerText = toLowerCase text;
          foundPattern = find (\<lambda>p. re_test p lowerText) navPatterns;
          hasNavKeywords = (case foundPattern of None \<Rightarrow> False | Some _ \<Rightarrow> True);
          isDescription = isRecipeDescription text
      in if isInstructionContext then hasNavKeywords \<or> isDescription
         else hasNavKeywords \<or> length text > 500)"

section \<open>Extraction candidates\<close>

record ingredient = parsed_ingredient +
  original :: "jsstring option"

record instruction =
  number :: nat
  step :: jsstring

text \<open>
  The interface \<open>SimpleScrapingResult\<close>; an optional field is an \<open>option\<close>.  The field
  \<open>image\<close> is named \<open>image_url\<close> here.  \<open>ScrapingResult\<close> of the rendered tier has the
  same fields and \<open>nutrition\<close>.
\<close>

record SimpleScrapingResult =
  title :: "jsstring option"
  image_url :: "jsstring option"
  summary :: "jsstring option"
  sourceUrl :: jsstring
  sourceName :: "jsstring option"
  readyInMinutes :: "jsnum option"
  servings :: "jsnum option"
  ingredients :: "ingredient list"
  instructions :: "instruction list"
  cuisines :: "jsstring list option"
  diets :: "jsstring list option"
  tags :: "jsstring list option"

record nutrition_facts =
  calories :: "jsnum option"
  protein :: "jsnum option"
  fat :: "jsnum option"
  carbs :: "jsnum option"
  fiber :: "jsnum option"
  sugar :: "jsnum option"
  sodium :: "jsnum option"

record ScrapingResult = SimpleScrapingResult +
  nutrition :: "nutrition_facts option"

text \<open>The truthiness of an optional string: defined and not empty.\<close>

definition str_truthy :: "jsstring option \<Rightarrow> bool" where
  "str_truthy v = (case v of None \<Rightarrow> False | Some s \<Rightarrow> 0 < length s)"

section \<open>The validity gate\<close>

text \<open>\<open>SimpleScrapingService.isValidResult\<close>\<close>

definition isValidResult :: "'a SimpleScrapingResult_scheme \<Rightarrow> bool" where
  "isValidResult result =
     ((str_truthy (title result)
        \<and> (length (ingredients result) > 0 \<or> length (instructions result) > 0))
      \<or> (length (ingredients result) > 0 \<and> length (instructions result) > 0))"

text \<open>\<open>RecipeScrapingService.isValidRecipe\<close>\<close>

definition isValidRecipe :: "ScrapingResult \<Rightarrow> bool" where
  "isValidRecipe result =
     (str_truthy (title result)
      \<or> (length (ingredients result) > 0 \<and> length (instructions result) > 0))"

section \<open>Instruction steps of a candidate\<close>

text \<open>
  The callback of \<open>.each((i, el) => ...)\<close> in \<open>SimpleScrapingService.tryMicrodataExtraction\<close>
  and in \<open>RecipeScrapingService.tryPatternMatching\<close>: \<open>i\<close> is the index of the element
  among the matched elements, the argument list holds their \<open>text()\<close> in document order,
  and \<open>acc\<close> is the array \<open>instructions\<close> the callback pushes to.
\<close>

fun each_instruction :: "nat \<Rightarrow> jsstring list \<Rightarrow> instruction list \<Rightarrow> instruction list" where
  "each_instruction i [] acc = acc"
| "each_instruction i (el # els) acc =
     (let text = trim el
      in each_instruction (i + 1) els
           (if 0 < length text \<and> length text > 10
            then acc @ [\<lparr>number = i + 1, step = text\<rparr>] else acc))"

text \<open>\<open>SimpleScrapingService.tryMicrodataExtraction\<close>: the instructions of the candidate.\<close>

definition microdata_instructions :: "jsstring list \<Rightarrow> instruction list" where
  "microdata_instructions els = each_instruction 0 els []"

text \<open>
  \<open>RecipeScrapingService.tryPatternMatching\<close>: the selectors are tried in order, each
  with the elements it matches, until the array is not empty.
\<close>

fun pattern_instructions :: "jsstring list list \<Rightarrow> instruction list \<Rightarrow> instruction list" where
  "pattern_instructions [] acc = acc"
| "pattern_instructions (els # rest) acc =
     (let acc' = each_instruction 0 els acc
      in if length acc' > 0 then acc' else pattern_instructions rest acc')"

text \<open>
  An entry of \<open>recipeInstructions\<close> in a JSON-LD block: a string, or an object with the
  optional fields \<open>text\<close> and \<open>name\<close>.
\<close>

datatype ld_instruction = LdString jsstring | LdObject "jsstring option" "jsstring option"

fun ld_text :: "ld_instruction \<Rightarrow> jsstring" where
  "ld_text (LdString s) = s"
| "ld_text (LdObject t n) =
     (if str_truthy t then (case t of Some s \<Rightarrow> s | None \<Rightarrow> [])
      else if str_truthy n then (case n of Some s \<Rightarrow> s | None \<Rightarrow> [])
      else [])"

text \<open>\<open>parseJsonLdRecipe\<close>: \<open>.map((instruction, index) => ...)\<close>, from index \<open>i\<close> on.\<close>

fun jsonld_map :: "nat \<Rightarrow> ld_instruction list \<Rightarrow> instruction list" where
  "jsonld_map i [] = []"
| "jsonld_map i (x # xs) = \<lparr>number = i + 1, step = trim (ld_text x)\<rparr> # jsonld_map (i + 1) xs"

definition jsonld_instructions :: "ld_instruction list \<Rightarrow> instruction list" where
  "jsonld_instructions xs = jsonld_map 0 xs"

section \<open>SimpleScrapingService: the lightweight fetch tier\<close>

definition errorIndicators :: "jsstring list" where
  "errorIndicators = map js
     [''page not found'', ''404'', ''error'', ''not available'', ''access denied'',
      ''blocked'', ''redirected'', ''please enable javascript'', ''robot or human'']"

definition isErrorPage :: "jsstring \<Rightarrow> bool" where
  "isErrorPage html =
     (let lowerHtml = toLowerCase html
      in list_ex (\<lambda>indicator. str_includes lowerHtml indicator) errorIndicators
         \<and> \<not> str_includes lowerHtml (js ''recipe'')
         \<and> \<not> str_includes lowerHtml (js ''ingredients''))"

text \<open>\<open>s.replace(pat, by)\<close> for a text pattern: the first occurrence only.\<close>

fun replace_first :: "jsstring \<Rightarrow> jsstring \<Rightarrow> jsstring \<Rightarrow> jsstring" where
  "replace_first [] pat by = (if pat = [] then by else [])"
| "replace_first (c # s) pat by =
     (if startsWith (c # s) pat then by @ drop (length pat) (c # s)
      else c # replace_first s pat by)"

text \<open>
  \<open>extractDomain\<close>.  \<open>hostname\<close> stands for \<open>new URL(url).hostname\<close>, \<open>None\<close> when the
  constructor throws.
\<close>

definition extractDomain :: "(jsstring \<Rightarrow> jsstring option) \<Rightarrow> jsstring \<Rightarrow> jsstring" where
  "extractDomain hostname url =
     (case hostname url of
        None \<Rightarrow> js ''Unknown''
      | Some h \<Rightarrow> replace_first h (js ''www.'') [])"

text \<open>
  \<open>formatRecipeData\<close>.  \<open>CreateRecipeData\<close> has the fields of the candidate (the fields it
  adds stay undefined), so the result is written as a candidate whose title is defined.
\<close>

definition formatRecipeData ::
  "(jsstring \<Rightarrow> jsstring option) \<Rightarrow> SimpleScrapingResult \<Rightarrow> jsstring \<Rightarrow> SimpleScrapingResult" where
  "formatRecipeData hostname result url =
     result\<lparr>title := (if str_truthy (title result) then title result
                      else Some (js ''Scraped Recipe'')),
            sourceUrl := url,
            sourceName := (if str_truthy (sourceName result) then sourceName result
                           else Some (extractDomain hostname url)),
            cuisines := (case cuisines result of None \<Rightarrow> Some [] | Some x \<Rightarrow> Some x),
            diets := (case diets result of None \<Rightarrow> Some [] | Some x \<Rightarrow> Some x),
            tags := (case tags result of None \<Rightarrow> Some [] | Some x \<Rightarrow> Some x)\<rparr>"

text \<open>
  What \<open>fetch\<close> and \<open>response.text()\<close> give: an exception, or the \<open>ok\<close> flag and the body.
\<close>

datatype fetch_result = FetchThrows | FetchResponse bool jsstring

text \<open>\<open>result && this.isValidResult(result)\<close>\<close>

definition valid_result :: "SimpleScrapingResult option \<Rightarrow> bool" where
  "valid_result result = (case result of None \<Rightarrow> False | Some r \<Rightarrow> isValidResult r)"

text \<open>
  \<open>scrapeWithFetch\<close>.  The three strategies read the document through an HTML parser;
  they are parameters, functions of the page text that return a candidate or \<open>null\<close>.
  Every exception is caught and gives \<open>null\<close>.
\<close>

definition scrapeWithFetch ::
  "(jsstring \<Rightarrow> jsstring option) \<Rightarrow> (jsstring \<Rightarrow> SimpleScrapingResult option)
    \<Rightarrow> (jsstring \<Rightarrow> SimpleScrapingResult option) \<Rightarrow> (jsstring \<Rightarrow> SimpleScrapingResult option)
    \<Rightarrow> jsstring \<Rightarrow> fetch_result \<Rightarrow> SimpleScrapingResult option" where
  "scrapeWithFetch hostname tryJsonLdExtraction tryMicrodataExtraction tryPatternMatching url resp =
     (case resp of
        FetchThrows \<Rightarrow> None
      | FetchResponse ok html \<Rightarrow>
          if \<not> ok then None
          else if isErrorPage html then None
          else if valid_result (tryJsonLdExtraction html)
            then map_option (\<lambda>r. formatRecipeData hostname r url) (tryJsonLdExtraction html)
          else if valid_result (tryMicrodataExtraction html)
            then map_option (\<lambda>r. formatRecipeData hostname r url) (tryMicrodataExtraction html)
          else if valid_result (tryPatternMatching html)
            then map_option (\<lambda>r. formatRecipeData hostname r url) (tryPatternMatching html)
          else None)"

section \<open>The job orchestrator: scrapingController\<close>

text \<open>A value of a parsed JSON request body; \<open>JUndefined\<close> is a field that is absent.\<close>

datatype jsval =
    JUndefined
  | JNull
  | JBool bool
  | JNumber jsnum
  | JString jsstring
  | JArray "jsval list"
  | JObject "(jsstring \<times> jsval) list"

fun js_truthy :: "jsval \<Rightarrow> bool" where
  "js_truthy JUndefined = False"
| "js_truthy JNull = False"
| "js_truthy (JBool b) = b"
| "js_truthy (JNumber n) = num_truthy n"
| "js_truthy (JString s) = (0 < length s)"
| "js_truthy (JArray xs) = True"
| "js_truthy (JObject kvs) = True"

fun typeof :: "jsval \<Rightarrow> string" where
  "typeof JUndefined = ''undefined''"
| "typeof JNull = ''object''"
| "typeof (JBool b) = ''boolean''"
| "typeof (JNumber n) = ''number''"
| "typeof (JString s) = ''string''"
| "typeof (JArray xs) = ''object''"
| "typeof (JObject kvs) = ''object''"

fun string_of :: "jsval \<Rightarrow> jsstring" where
  "string_of (JString s) = s"
| "string_of _ = []"

text \<open>
  A row of the table \<open>scrapedUrl\<close>: the primary key \<open>id\<close> (named \<open>job_id\<close> here), the
  unique \<open>url\<close>, \<open>status\<close> (a string), \<open>retryCount\<close>, \<open>errorMessage\<close>, \<open>recipeId\<close>
  and \<open>updatedAt\<close>.
\<close>

record ScrapedUrl =
  job_id :: jsstring
  url :: jsstring
  status :: jsstring
  retryCount :: nat
  errorMessage :: "jsstring option"
  recipeId :: "jsstring option"
  updatedAt :: nat

text \<open>
  What the controller reads and writes: the table of jobs, the table of recipes (by
  id), the calls \<open>scrapingService.scrapeRecipe(url, jobId)\<close> started so far, in order,
  and the number of rows created, which indexes the ids the database generates.
  The promise of a started call completes later and is not part of the request.
\<close>

record 'r world =
  scrapedUrls :: "ScrapedUrl list"
  recipes :: "jsstring \<rightharpoonup> 'r"
  launched :: "(jsstring \<times> jsstring) list"
  created :: nat

datatype 'c response =
    Error nat jsstring                \<comment> \<open>\<open>res.status(code).json({ error })\<close>\<close>
  | Cached 'c                         \<comment> \<open>\<open>{ status: 'success', recipe, cached: true }\<close>\<close>
  | Started jsstring jsstring         \<comment> \<open>\<open>{ status: 'processing', jobId, message }\<close>\<close>
  | BulkStarted "jsstring list"       \<comment> \<open>\<open>{ status: 'processing', jobIds, message }\<close>\<close>

text \<open>\<open>findUnique({ where: { url } })\<close> and \<open>findUnique({ where: { id } })\<close>\<close>

definition findByUrl :: "jsstring \<Rightarrow> ScrapedUrl list \<Rightarrow> ScrapedUrl option" where
  "findByUrl u rows = find (\<lambda>j. url j = u) rows"

definition findById :: "jsstring \<Rightarrow> ScrapedUrl list \<Rightarrow> ScrapedUrl option" where
  "findById i rows = find (\<lambda>j. job_id j = i) rows"

text \<open>An update of the row a unique key selects: the first row that has the key.\<close>

fun updateFirst :: "('a \<Rightarrow> bool) \<Rightarrow> ('a \<Rightarrow> 'a) \<Rightarrow> 'a list \<Rightarrow> 'a list" where
  "updateFirst p f [] = []"
| "updateFirst p f (x # xs) = (if p x then f x # xs else x # updateFirst p f xs)"

text \<open>The data of both updates: \<open>status: 'processing'\<close>, \<open>updatedAt\<close>, \<open>retryCount\<close> incremented.\<close>

definition reprocess :: "nat \<Rightarrow> ScrapedUrl \<Rightarrow> ScrapedUrl" where
  "reprocess now j = j\<lparr>status := js ''processing'', retryCount := retryCount j + 1, updatedAt := now\<rparr>"

text \<open>
  Modelled from the spec: the default of the column \<open>retryCount\<close> of a created row.  The
  schema of the database is not among the sources; the spec has "\<open>retryCount\<close> (int,
  starts 0, increments on retry/resubmission)".
\<close>

definition defaultRetryCount :: nat where
  "defaultRetryCount = 0"

text \<open>
  \<open>prisma.scrapedUrl.upsert({ where: { url }, update: ..., create: ... })\<close>: the row
  after the operation, and the world.  \<open>newId\<close> is the generator of ids of the database.
\<close>

definition upsert :: "(nat \<Rightarrow> jsstring) \<Rightarrow> nat \<Rightarrow> jsstring \<Rightarrow> 'r world \<Rightarrow> ScrapedUrl \<times> 'r world" where
  "upsert newId now u w =
     (case findByUrl u (scrapedUrls w) of
        Some e \<Rightarrow>
          (reprocess now e,
           w\<lparr>scrapedUrls := updateFirst (\<lambda>j. url j = u) (reprocess now) (scrapedUrls w)\<rparr>)
      | None \<Rightarrow>
          (let j = \<lparr>job_id = newId (created w), url = u, status = js ''processing'',
                    retryCount = defaultRetryCount, errorMessage = None, recipeId = None,
                    updatedAt = now\<rparr>
           in (j, w\<lparr>scrapedUrls := scrapedUrls w @ [j], created := created w + 1\<rparr>)))"

text \<open>The upsert followed by the start of the scraping process, in \<open>scrapeRecipe\<close> and in the bulk loop.\<close>

definition upsert_and_launch ::
  "(nat \<Rightarrow> jsstring) \<Rightarrow> nat \<Rightarrow> jsstring \<Rightarrow> 'r world \<Rightarrow> ScrapedUrl \<times> 'r world" where
  "upsert_and_launch newId now u w =
     (case upsert newId now u w of
        (scrapingJob, w') \<Rightarrow>
          (scrapingJob, w'\<lparr>launched := launched w' @ [(u, job_id scrapingJob)]\<rparr>))"

text \<open>\<open>!url || typeof url !== 'string'\<close>\<close>

definition invalid_url :: "jsval \<Rightarrow> bool" where
  "invalid_url v = (\<not> js_truthy v \<or> typeof v \<noteq> ''string'')"

text \<open>
  \<open>scrapingController.scrapeRecipe\<close>: the response and the world after the request.
  \<open>body_url\<close> is \<open>req.body.url\<close>, \<open>transform\<close> is \<open>transformRecipeForClient\<close>.  The
  \<open>catch\<close> branch answers an exception of the database, which the model does not have.
\<close>

definition scrapeRecipe ::
  "(nat \<Rightarrow> jsstring) \<Rightarrow> ('r \<Rightarrow> 'c) \<Rightarrow> nat \<Rightarrow> jsval \<Rightarrow> 'r world \<Rightarrow> 'c response \<times> 'r world" where
  "scrapeRecipe newId transform now body_url w =
     (if invalid_url body_url then (Error 400 (js ''Valid URL is required''), w)
      else
        (let u = string_of body_url;
             start = (case upsert_and_launch newId now u w of
                        (scrapingJob, w') \<Rightarrow>
                          (Started (job_id scrapingJob)
                             (js ''Recipe scraping started. Check status endpoint for progress.''),
                           w'))
         in case findByUrl u (scrapedUrls w) of
              None \<Rightarrow> start
            | Some existing \<Rightarrow>
                if status existing = js ''success'' \<and> str_truthy (recipeId existing) then
                  (case recipeId existing of
                     None \<Rightarrow> start
                   | Some rid \<Rightarrow>
                       (case recipes w rid of
                          None \<Rightarrow> start
                        | Some recipe \<Rightarrow> (Cached (transform recipe), w)))
                else if status existing = js ''processing'' then
                  (Started (job_id existing) (js ''Recipe is currently being scraped''), w)
                else start))"

text \<open>\<open>scrapingController.retryScrapingJob\<close>; \<open>jobId\<close> is \<open>req.params.jobId\<close>.\<close>

definition retryScrapingJob :: "nat \<Rightarrow> jsstring \<Rightarrow> 'r world \<Rightarrow> 'c response \<times> 'r world" where
  "retryScrapingJob now jobId w =
     (case findById jobId (scrapedUrls w) of
        None \<Rightarrow> (Error 404 (js ''Scraping job not found''), w)
      | Some scrapingJob \<Rightarrow>
          if status scrapingJob = js ''processing''
          then (Error 400 (js ''Job is already processing''), w)
          else
            (Started (job_id scrapingJob) (js ''Scraping retry started''),
             w\<lparr>scrapedUrls := updateFirst (\<lambda>j. job_id j = jobId) (reprocess now) (scrapedUrls w),
               launched := launched w @ [(url scrapingJob, job_id scrapingJob)]\<rparr>))"

text \<open>The loop of \<open>bulkScrapeRecipes\<close> over the entries of \<open>urls\<close>; \<open>jobIds\<close> is the array so far.\<close>

fun bulk_loop ::
  "(nat \<Rightarrow> jsstring) \<Rightarrow> nat \<Rightarrow> jsval list \<Rightarrow> jsstring list \<Rightarrow> 'r world \<Rightarrow> jsstring list \<times> 'r world" where
  "bulk_loop newId now [] jobIds w = (jobIds, w)"
| "bulk_loop newId now (v # vs) jobIds w =
     (if typeof v \<noteq> ''string'' then bulk_loop newId now vs jobIds w
      else
        (case upsert_and_launch newId now (string_of v) w of
           (scrapingJob, w') \<Rightarrow> bulk_loop newId now vs (jobIds @ [job_id scrapingJob]) w'))"

text \<open>\<open>scrapingController.bulkScrapeRecipes\<close>; \<open>body_urls\<close> is \<open>req.body.urls\<close>.\<close>

definition bulkScrapeRecipes ::
  "(nat \<Rightarrow> jsstring) \<Rightarrow> nat \<Rightarrow> jsval \<Rightarrow> 'r world \<Rightarrow> 'c response \<times> 'r world" where
  "bulkScrapeRecipes newId now body_urls w =
     (case body_urls of
        JArray urls \<Rightarrow>
          if length urls = 0 then (Error 400 (js ''Array of URLs is required''), w)
          else if length urls > 10 then (Error 400 (js ''Maximum 10 URLs allowed per batch''), w)
          else (case bulk_loop newId now urls [] w of (jobIds, w') \<Rightarrow> (BulkStarted jobIds, w'))
      | _ \<Rightarrow> (Error 400 (js ''Array of URLs is required''), w))"

section \<open>Patterns as languages\<close>

text \<open>
  \<open>wmatch p w\<close>: the text \<open>w\<close>, as a whole, is in the language of \<open>p\<close> read as an
  ordinary regular expression (an anchor is the empty text).
\<close>

fun wmatch :: "re \<Rightarrow> jsstring \<Rightarrow> bool" where
  "wmatch Eps w = (w = [])"
| "wmatch (Chr k) w = (\<exists>x. w = [x] \<and> in_cls k x)"
| "wmatch (Rep k mn mx) w =
     ((\<forall>x\<in>set w. in_cls k x) \<and> mn \<le> length w
      \<and> (case mx of None \<Rightarrow> True | Some m \<Rightarrow> length w \<le> m))"
| "wmatch (Seq p q) w = (\<exists>u v. w = u @ v \<and> wmatch p u \<and> wmatch q v)"
| "wmatch (Alt p q) w = (wmatch p w \<or> wmatch q w)"
| "wmatch (Opt p) w = (w = [] \<or> wmatch p w)"
| "wmatch (Grp k p) w = wmatch p w"
| "wmatch Bol w = (w = [])"
| "wmatch Eol w = (w = [])"
| "wmatch WordB w = (w = [])"

text \<open>A pattern without \<open>^\<close>, \<open>$\<close> and \<open>\b\<close>.\<close>

fun anchor_free :: "re \<Rightarrow> bool" where
  "anchor_free Eps = True"
| "anchor_free (Chr k) = True"
| "anchor_free (Rep k mn mx) = True"
| "anchor_free (Seq p q) = (anchor_free p \<and> anchor_free q)"
| "anchor_free (Alt p q) = (anchor_free p \<and> anchor_free q)"
| "anchor_free (Opt p) = anchor_free p"
| "anchor_free (Grp k p) = anchor_free p"
| "anchor_free Bol = False"
| "anchor_free Eol = False"
| "anchor_free WordB = False"

text \<open>\<open>reaches p s b' r'\<close>: some outcome of the matcher of \<open>p\<close> from \<open>s\<close> is at the position \<open>(b', r')\<close>.\<close>

definition reaches :: "re \<Rightarrow> mstate \<Rightarrow> jsstring \<Rightarrow> jsstring \<Rightarrow> bool" where
  "reaches p s b' r' = (\<exists>c'. (b', r', c') \<in> set (ms p s))"

text \<open>
  \<open>whole_word_in w t\<close>: \<open>w\<close> occurs in \<open>t\<close> with no word character directly before it
  and none directly after it.
\<close>

definition whole_word_in :: "jsstring \<Rightarrow> jsstring \<Rightarrow> bool" where
  "whole_word_in w t =
     (\<exists>pre post. t = pre @ w @ post \<and> \<not> headIsWord (rev pre) \<and> \<not> headIsWord post)"

text \<open>
  The lines the pattern of \<open>parseIngredient\<close> describes, \<open><amount> <unit?> <name>\<close>:
  an amount (digits, then optionally a slash and digits, then optionally a point and
  digits), white space or none, letters or none (the unit), white space, and a name that
  is not empty and has no line terminator.
\<close>

definition digits1 :: "jsstring \<Rightarrow> bool" where
  "digits1 d = (d \<noteq> [] \<and> (\<forall>c\<in>set d. isDigit c))"

definition amount_text :: "jsstring \<Rightarrow> bool" where
  "amount_text t =
     (\<exists>d f e. t = d @ f @ e \<and> digits1 d
        \<and> (f = [] \<or> (\<exists>d2. f = 47 # d2 \<and> digits1 d2))
        \<and> (e = [] \<or> (\<exists>d3. e = 46 # d3 \<and> digits1 d3)))"

definition ingredient_line :: "jsstring \<Rightarrow> bool" where
  "ingredient_line line =
     (\<exists>amt ws1 un ws2 nm. line = amt @ ws1 @ un @ ws2 @ nm
        \<and> amount_text amt
        \<and> (\<forall>c\<in>set ws1. isSpace c)
        \<and> (\<forall>c\<in>set un. isAlpha c)
        \<and> ws2 \<noteq> [] \<and> (\<forall>c\<in>set ws2. isSpace c)
        \<and> nm \<noteq> [] \<and> (\<forall>c\<in>set nm. \<not> isLineTerminator c))"

text \<open>
  \<open>time_token letter text\<close>: the text contains a run of digits, then white space or
  none, then the letter in either case (104 is h, 109 is m): a token of hours or minutes.
\<close>

definition time_token :: "cu \<Rightarrow> jsstring \<Rightarrow> bool" where
  "time_token letter text =
     (\<exists>pre d ws c post. text = pre @ d @ ws @ c # post
        \<and> digits1 d \<and> (\<forall>x\<in>set ws. isSpace x) \<and> lowerCu c = letter)"

text \<open>The pattern of \<open>parseIngredient\<close> between \<open>^\<close> and \<open>$\<close>.\<close>

definition ingredient_body :: "re list" where
  "ingredient_body =
     [Grp 1 (seqs [Rep Digit 1 None,
                   Opt (seqs [Chr (One 47), Rep Digit 1 None]),
                   Opt (seqs [Chr (One 46), Rep Digit 1 None])]),
      Rep Space 0 None,
      Opt (Grp 2 (Rep Alpha 1 None)),
      Rep Space 1 None,
      Grp 3 (Rep AnyChar 1 None)]"

text \<open>The group numbers of a pattern.\<close>

fun groups :: "re \<Rightarrow> nat set" where
  "groups Eps = {}"
| "groups (Chr k) = {}"
| "groups (Rep k mn mx) = {}"
| "groups (Seq p q) = groups p \<union> groups q"
| "groups (Alt p q) = groups p \<union> groups q"
| "groups (Opt p) = groups p"
| "groups (Grp k p) = insert k (groups p)"
| "groups Bol = {}"
| "groups Eol = {}"
| "groups WordB = {}"

text \<open>The code units an amount is written with: digits, the slash and the point.\<close>

definition amount_char :: "cu \<Rightarrow> bool" where
  "amount_char c = (isDigit c \<or> c = 47 \<or> c = 46)"

text \<open>
  The pattern of \<open>parseIngredient\<close> after its first group, and the pattern inside the
  first group: \<open>\s*([a-zA-Z]+)?\s+(.+)\<close> and \<open>\d+(?:\/\d+)?(?:\.\d+)?\<close>.
\<close>

definition ingredient_tail :: "re list" where
  "ingredient_tail =
     [Rep Space 0 None,
      Opt (Grp 2 (Rep Alpha 1 None)),
      Rep Space 1 None,
      Grp 3 (Rep AnyChar 1 None)]"

definition amount_re :: re where
  "amount_re = seqs [Rep Digit 1 None,
                     Opt (seqs [Chr (One 47), Rep Digit 1 None]),
                     Opt (seqs [Chr (One 46), Rep Digit 1 None])]"

section \<open>The first outcome of a matcher\<close>

text \<open>\<open>leads p s s'\<close>: from the state \<open>s\<close>, the first outcome the matcher of \<open>p\<close> tries is \<open>s'\<close>.\<close>

definition leads :: "re \<Rightarrow> mstate \<Rightarrow> mstate \<Rightarrow> bool" where
  "leads p s s' = (\<exists>rest. ms p s = s' # rest)"

section \<open>Example inputs\<close>

text \<open>A candidate of the simple tier and of the rendered tier with the given title, ingredients and instructions.\<close>

definition simple_candidate ::
  "jsstring option \<Rightarrow> ingredient list \<Rightarrow> instruction list \<Rightarrow> SimpleScrapingResult" where
  "simple_candidate t ings ins =
     \<lparr>title = t, image_url = None, summary = None, sourceUrl = [], sourceName = None,
      readyInMinutes = None, servings = None, ingredients = ings, instructions = ins,
      cuisines = None, diets = None, tags = None\<rparr>"

definition candidate ::
  "jsstring option \<Rightarrow> ingredient list \<Rightarrow> instruction list \<Rightarrow> ScrapingResult" where
  "candidate t ings ins =
     \<lparr>title = t, image_url = None, summary = None, sourceUrl = [], sourceName = None,
      readyInMinutes = None, servings = None, ingredients = ings, instructions = ins,
      cuisines = None, diets = None, tags = None, nutrition = None\<rparr>"

text \<open>A job row by id, url, status, retry count and recipe id; a world of job rows and recipes.\<close>

definition job :: "string \<Rightarrow> string \<Rightarrow> string \<Rightarrow> nat \<Rightarrow> jsstring option \<Rightarrow> ScrapedUrl" where
  "job i u st n rid =
     \<lparr>job_id = js i, url = js u, status = js st, retryCount = n, errorMessage = None,
      recipeId = rid, updatedAt = 0\<rparr>"

definition world_of :: "ScrapedUrl list \<Rightarrow> (jsstring \<times> nat) list \<Rightarrow> nat world" where
  "world_of rows rs =
     \<lparr>scrapedUrls = rows, recipes = map_of rs, launched = [], created = length rows\<rparr>"

definition example_ids :: "nat \<Rightarrow> jsstring" where
  "example_ids n = js ''job-'' @ [48 + n]"

section \<open>The validity gate: properties\<close>

lemma isValidResult_iff:
  "isValidResult r \<longleftrightarrow>
     (str_truthy (title r) \<and> (ingredients r \<noteq> [] \<or> instructions r \<noteq> []))
     \<or> (ingredients r \<noteq> [] \<and> instructions r \<noteq> [])"
  by (simp add: isValidResult_def)

lemma isValidRecipe_iff:
  "isValidRecipe r \<longleftrightarrow>
     str_truthy (title r) \<or> (ingredients r \<noteq> [] \<and> instructions r \<noteq> [])"
  by (simp add: isValidRecipe_def)

text \<open>
  C1.  The gate is to reject a candidate that has a title and neither ingredients nor
  instructions, in both tiers.  \<open>isValidResult\<close> of the simple tier rejects the candidate
  titled "Soup" with no ingredient and no instruction; \<open>isValidRecipe\<close> of the rendered
  tier accepts it, since a title alone satisfies its test.
\<close>

theorem isValidRecipe_accepts_title_only:
  "isValidRecipe (candidate (Some (js ''Soup'')) [] [])
   \<and> \<not> isValidResult (candidate (Some (js ''Soup'')) [] [])"
  by (simp add: isValidRecipe_def isValidResult_def candidate_def str_truthy_def js_def)

section \<open>Instruction numbers: properties\<close>

lemma number_jsonld_map: "map number (jsonld_map i xs) = [Suc i ..< Suc i + length xs]"
proof (induction xs arbitrary: i)
  case Nil
  show ?case by simp
next
  case (Cons x xs)
  have "[Suc i ..< Suc i + length (x # xs)] = Suc i # [Suc (Suc i) ..< Suc (Suc i) + length xs]"
    by (simp add: upt_rec)
  with Cons show ?case by simp
qed

text \<open>The structured-data strategy numbers its M steps 1 to M.\<close>

lemma jsonld_instructions_numbers:
  "map number (jsonld_instructions xs) = [1 ..< Suc (length xs)]"
  by (simp add: jsonld_instructions_def number_jsonld_map)

text \<open>
  The callback numbers a kept step by the index of its element: the numbers of the
  microdata strategy are the 1-based indices of the elements whose trimmed text is longer
  than 10.
\<close>

lemma number_each_instruction:
  "map number (each_instruction i els acc)
     = map number acc
       @ map (\<lambda>(k, el). k + 1) (filter (\<lambda>(k, el). 10 < length (trim el)) (enumerate i els))"
proof (induction els arbitrary: i acc)
  case Nil
  show ?case by simp
next
  case (Cons el els)
  show ?case by (simp add: Cons.IH Let_def)
qed

lemma microdata_instructions_numbers:
  "map number (microdata_instructions els)
     = map (\<lambda>(k, el). k + 1) (filter (\<lambda>(k, el). 10 < length (trim el)) (enumerate 0 els))"
  by (simp add: microdata_instructions_def number_each_instruction)

text \<open>
  C3.  The step numbers of a candidate are to be 1 to M without a gap, also when elements
  are skipped.  The microdata strategy of the simple tier numbers a step by the index of
  its element among all matched elements: of the elements "Mix" (skipped, not longer than
  10) and "Stir the batter until it is smooth" it keeps one step, numbered 2.  The
  pattern strategy of the rendered tier has the same callback: of three elements with the
  first skipped it keeps two steps, numbered 2 and 3.
\<close>

theorem microdata_instruction_numbers_gap:
  "map number (microdata_instructions [js ''Mix'', js ''Stir the batter until it is smooth'']) = [2]
   \<and> map number (pattern_instructions
         [[js ''Mix'', js ''Stir the batter until it is smooth'', js ''Pour it into the greased tin'']] [])
       = [2, 3]"
  by (simp add: microdata_instructions_def js_def trim_def isSpace_def isLineTerminator_def)

section \<open>The lightweight fetch tier: properties\<close>

lemma startsWith_prefix: "startsWith s p \<longleftrightarrow> prefix p s"
  by (induction s p rule: startsWith.induct) auto

lemma str_includes_sublist: "str_includes s t \<longleftrightarrow> sublist t s"
  by (induction s) (auto simp: startsWith_prefix sublist_Cons_right)

text \<open>
  C9.  A page is classified as an error page exactly when its lower-cased text contains
  one of the failure indicators and contains neither "recipe" nor "ingredients"; the
  fetch tier then returns no result; a page that contains "recipe" or "ingredients" is
  never classified as an error page.  (\<open>sublist t s\<close>: \<open>t\<close> occurs in \<open>s\<close>.)
\<close>

theorem isErrorPage_classification:
  "(isErrorPage html \<longleftrightarrow>
      (\<exists>indicator \<in> set errorIndicators. sublist indicator (toLowerCase html))
      \<and> \<not> sublist (js ''recipe'') (toLowerCase html)
      \<and> \<not> sublist (js ''ingredients'') (toLowerCase html))
   \<and> (isErrorPage html \<longrightarrow>
        scrapeWithFetch hostname tryJsonLd tryMicrodata tryPattern page_url (FetchResponse ok html) = None)
   \<and> (sublist (js ''recipe'') (toLowerCase html) \<or> sublist (js ''ingredients'') (toLowerCase html)
        \<longrightarrow> \<not> isErrorPage html)"
proof -
  have iff: "isErrorPage html \<longleftrightarrow>
      (\<exists>indicator \<in> set errorIndicators. sublist indicator (toLowerCase html))
      \<and> \<not> sublist (js ''recipe'') (toLowerCase html)
      \<and> \<not> sublist (js ''ingredients'') (toLowerCase html)"
    by (simp add: isErrorPage_def Let_def str_includes_sublist list_ex_iff)
  have none: "isErrorPage html \<longrightarrow>
      scrapeWithFetch hostname tryJsonLd tryMicrodata tryPattern page_url (FetchResponse ok html) = None"
    by (simp add: scrapeWithFetch_def)
  from iff none show ?thesis by blast
qed

text \<open>
  The page "404 Page Not Found" is an error page, and the tier returns nothing for it
  although the first strategy would give a valid candidate; the page
  "Error: no Recipe here" contains "recipe" and is not an error page.
\<close>

theorem isErrorPage_classification_witness:
  "isErrorPage (js ''404 Page Not Found'')
   \<and> scrapeWithFetch (\<lambda>u. None)
        (\<lambda>h. Some (simple_candidate (Some (js ''Soup'')) []
                     [\<lparr>number = 1, step = js ''Boil the water''\<rparr>]))
        (\<lambda>h. None) (\<lambda>h. None) (js ''http://x/r'') (FetchResponse True (js ''404 Page Not Found''))
       = None
   \<and> sublist (js ''recipe'') (toLowerCase (js ''Error: no Recipe here''))
   \<and> \<not> isErrorPage (js ''Error: no Recipe here'')"
proof -
  have e: "isErrorPage (js ''404 Page Not Found'')"
    by (simp add: isErrorPage_def errorIndicators_def js_def toLowerCase_def lowerCu_def)
  have r: "sublist (js ''recipe'') (toLowerCase (js ''Error: no Recipe here''))"
    unfolding str_includes_sublist [symmetric] by (simp add: js_def toLowerCase_def lowerCu_def)
  show ?thesis
    using e r
      isErrorPage_classification [of "js ''404 Page Not Found''" "\<lambda>u. None"
             "\<lambda>h. Some (simple_candidate (Some (js ''Soup'')) []
                          [\<lparr>number = 1, step = js ''Boil the water''\<rparr>])"
             "\<lambda>h. None" "\<lambda>h. None" "js ''http://x/r''" True]
      isErrorPage_classification [of "js ''Error: no Recipe here''"]
    by blast
qed

section \<open>The job orchestrator: properties\<close>

lemma find_Some_holds: "find p xs = Some x \<Longrightarrow> p x"
  by (induction xs) (auto split: if_splits)

lemma find_updateFirst_same:
  assumes "find p xs = Some x" and "p (f x)"
  shows "find p (updateFirst p f xs) = Some (f x)"
  using assms by (induction xs) (auto split: if_splits)

lemma findById_updateFirst_other:
  assumes "\<And>x. job_id (f x) = job_id x" and "i \<noteq> k"
  shows "findById i (updateFirst (\<lambda>j. job_id j = k) f xs) = findById i xs"
  using assms by (induction xs) (auto simp: findById_def)

lemma job_id_reprocess: "job_id (reprocess now j) = job_id j"
  by (simp add: reprocess_def)

lemmas example_defs =
  world_of_def job_def findByUrl_def findById_def js_def example_ids_def reprocess_def

text \<open>
  C10.  A submission whose \<open>url\<close> is absent or is not a string is answered with the
  status 400 and the error "Valid URL is required", and the world is unchanged: no job
  row is created or updated and no extraction is started.
\<close>

theorem scrapeRecipe_rejects_invalid_url:
  "typeof body_url \<noteq> ''string'' \<Longrightarrow>
   scrapeRecipe newId transform now body_url w = (Error 400 (js ''Valid URL is required''), w)"
  by (simp add: scrapeRecipe_def invalid_url_def)

theorem scrapeRecipe_rejects_invalid_url_witness:
  "typeof JUndefined \<noteq> ''string''
   \<and> scrapeRecipe example_ids (\<lambda>r. r) 5 JUndefined
        (world_of [job ''a'' ''http://x/r'' ''failed'' 0 None] [])
       = (Error 400 (js ''Valid URL is required''),
          world_of [job ''a'' ''http://x/r'' ''failed'' 0 None] [])"
  using scrapeRecipe_rejects_invalid_url
          [of JUndefined example_ids "\<lambda>r. r" 5 "world_of [job ''a'' ''http://x/r'' ''failed'' 0 None] []"]
  by simp

text \<open>
  C4.  A submission of a url (a string that is not empty) whose job row has the status
  "success" and a recipe id under which a recipe is still stored is answered with that
  recipe, marked cached, and the world is unchanged: no extraction is started and the
  job row, with its retry count, stays as it is.
\<close>

theorem scrapeRecipe_cache_hit:
  assumes "findByUrl u (scrapedUrls w) = Some existing"
    and "status existing = js ''success''"
    and "recipeId existing = Some rid"
    and "recipes w rid = Some recipe"
    and "0 < length u" and "0 < length rid"
  shows "scrapeRecipe newId transform now (JString u) w = (Cached (transform recipe), w)"
  using assms by (simp add: scrapeRecipe_def invalid_url_def str_truthy_def)

theorem scrapeRecipe_cache_hit_witness:
  "scrapeRecipe example_ids (\<lambda>r. r) 5 (JString (js ''http://x/r''))
      (world_of [job ''a'' ''http://x/r'' ''success'' 0 (Some (js ''r1''))] [(js ''r1'', 7)])
    = (Cached 7, world_of [job ''a'' ''http://x/r'' ''success'' 0 (Some (js ''r1''))] [(js ''r1'', 7)])"
  by (rule scrapeRecipe_cache_hit
        [where existing = "job ''a'' ''http://x/r'' ''success'' 0 (Some (js ''r1''))" and rid = "js ''r1''"])
     (simp_all add: world_of_def job_def findByUrl_def js_def)

text \<open>
  C6.  A retry of a job whose status is "processing" is answered with an error (status
  400, "Job is already processing") and leaves the world unchanged.  A retry of a job in
  any other status answers with the job id, sets the status of that row to "processing",
  adds exactly 1 to its retry count, leaves every other row as it is, and starts one
  extraction for the url of the job.
\<close>

theorem retryScrapingJob_transitions:
  assumes "findById jobId (scrapedUrls w) = Some j"
  shows "(status j = js ''processing'' \<longrightarrow>
            retryScrapingJob now jobId w = (Error 400 (js ''Job is already processing''), w))
       \<and> (status j \<noteq> js ''processing'' \<longrightarrow>
            (\<exists>w'. retryScrapingJob now jobId w
                     = (Started (job_id j) (js ''Scraping retry started''), w')
               \<and> findById jobId (scrapedUrls w')
                    = Some (j\<lparr>status := js ''processing'', retryCount := retryCount j + 1,
                              updatedAt := now\<rparr>)
               \<and> (\<forall>i. i \<noteq> jobId \<longrightarrow> findById i (scrapedUrls w') = findById i (scrapedUrls w))
               \<and> launched w' = launched w @ [(url j, job_id j)]
               \<and> recipes w' = recipes w))"
proof -
  have idj: "job_id j = jobId"
    using assms find_Some_holds [of "\<lambda>j. job_id j = jobId"] by (simp add: findById_def)
  have upd: "findById jobId (updateFirst (\<lambda>j. job_id j = jobId) (reprocess now) (scrapedUrls w))
      = Some (reprocess now j)"
    using assms idj unfolding findById_def
    by (intro find_updateFirst_same) (simp_all add: job_id_reprocess)
  show ?thesis
    using assms upd
    by (auto simp: retryScrapingJob_def findById_updateFirst_other job_id_reprocess reprocess_def)
qed

text \<open>
  A retry of a processing job is refused; a retry of a failed job with retry count 2
  gives a processing job with retry count 3 and one started extraction.
\<close>

theorem retryScrapingJob_transitions_witness:
  "retryScrapingJob 9 (js ''a'') (world_of [job ''a'' ''http://x/r'' ''processing'' 0 None] [])
      = (Error 400 (js ''Job is already processing'') :: nat response,
         world_of [job ''a'' ''http://x/r'' ''processing'' 0 None] [])
   \<and> (\<exists>w'. retryScrapingJob 9 (js ''a'') (world_of [job ''a'' ''http://x/r'' ''failed'' 2 None] [])
              = (Started (js ''a'') (js ''Scraping retry started'') :: nat response, w')
          \<and> findById (js ''a'') (scrapedUrls w')
              = Some ((job ''a'' ''http://x/r'' ''processing'' 3 None)\<lparr>updatedAt := 9\<rparr>)
          \<and> launched w' = [(js ''http://x/r'', js ''a'')])"
proof -
  have p: "findById (js ''a'') (scrapedUrls (world_of [job ''a'' ''http://x/r'' ''processing'' 0 None] []))
      = Some (job ''a'' ''http://x/r'' ''processing'' 0 None)"
    by (simp add: example_defs)
  have f: "findById (js ''a'') (scrapedUrls (world_of [job ''a'' ''http://x/r'' ''failed'' 2 None] []))
      = Some (job ''a'' ''http://x/r'' ''failed'' 2 None)"
    by (simp add: example_defs)
  have sp: "status (job ''a'' ''http://x/r'' ''processing'' 0 None) = js ''processing''"
    by (simp add: job_def)
  have sf: "status (job ''a'' ''http://x/r'' ''failed'' 2 None) \<noteq> js ''processing''"
    by (simp add: job_def js_def)
  from retryScrapingJob_transitions [OF p, of 9, where 'b = nat] sp
  have 1: "retryScrapingJob 9 (js ''a'') (world_of [job ''a'' ''http://x/r'' ''processing'' 0 None] [])
      = (Error 400 (js ''Job is already processing'') :: nat response,
         world_of [job ''a'' ''http://x/r'' ''processing'' 0 None] [])"
    by simp
  from retryScrapingJob_transitions [OF f, of 9, where 'b = nat] sf
  obtain w' where
    "retryScrapingJob 9 (js ''a'') (world_of [job ''a'' ''http://x/r'' ''failed'' 2 None] [])
       = (Started (job_id (job ''a'' ''http://x/r'' ''failed'' 2 None))
            (js ''Scraping retry started'') :: nat response, w')"
    "findById (js ''a'') (scrapedUrls w')
       = Some ((job ''a'' ''http://x/r'' ''failed'' 2 None)
            \<lparr>status := js ''processing'',
              retryCount := retryCount (job ''a'' ''http://x/r'' ''failed'' 2 None) + 1,
              updatedAt := 9\<rparr>)"
    "launched w' = launched (world_of [job ''a'' ''http://x/r'' ''failed'' 2 None] [])
        @ [(url (job ''a'' ''http://x/r'' ''failed'' 2 None),
            job_id (job ''a'' ''http://x/r'' ''failed'' 2 None))]"
    by blast
  then have 2: "\<exists>w'. retryScrapingJob 9 (js ''a'') (world_of [job ''a'' ''http://x/r'' ''failed'' 2 None] [])
              = (Started (js ''a'') (js ''Scraping retry started'') :: nat response, w')
          \<and> findById (js ''a'') (scrapedUrls w')
              = Some ((job ''a'' ''http://x/r'' ''processing'' 3 None)\<lparr>updatedAt := 9\<rparr>)
          \<and> launched w' = [(js ''http://x/r'', js ''a'')]"
    by (intro exI [of _ w']) (simp add: job_def world_of_def)
  from 1 2 show ?thesis by blast
qed

text \<open>
  C2.  A bulk submission is to treat each url as a single submission does.  For a url
  whose job is "processing" with retry count 0, the single submission answers with the
  existing job and leaves the world unchanged, while the bulk submission of the same url
  raises the retry count to 1 and starts an extraction.  For a url whose job is "success"
  with a stored recipe, the single submission answers with the cached recipe, while the
  bulk submission sets the job back to "processing", raises the retry count and starts an
  extraction.
\<close>

theorem bulkScrapeRecipes_relaunches_existing:
  "scrapeRecipe example_ids (\<lambda>r. r) 5 (JString (js ''http://x/r''))
      (world_of [job ''a'' ''http://x/r'' ''processing'' 0 None] [])
    = (Started (js ''a'') (js ''Recipe is currently being scraped''),
       world_of [job ''a'' ''http://x/r'' ''processing'' 0 None] [])
   \<and> bulkScrapeRecipes example_ids 5 (JArray [JString (js ''http://x/r'')])
      (world_of [job ''a'' ''http://x/r'' ''processing'' 0 None] [])
    = (BulkStarted [js ''a''] :: nat response,
       (world_of [(job ''a'' ''http://x/r'' ''processing'' 1 None)\<lparr>updatedAt := 5\<rparr>] [])
         \<lparr>launched := [(js ''http://x/r'', js ''a'')]\<rparr>)
   \<and> scrapeRecipe example_ids (\<lambda>r. r) 5 (JString (js ''http://x/r''))
      (world_of [job ''a'' ''http://x/r'' ''success'' 0 (Some (js ''r1''))] [(js ''r1'', 7)])
    = (Cached 7, world_of [job ''a'' ''http://x/r'' ''success'' 0 (Some (js ''r1''))] [(js ''r1'', 7)])
   \<and> bulkScrapeRecipes example_ids 5 (JArray [JString (js ''http://x/r'')])
      (world_of [job ''a'' ''http://x/r'' ''success'' 0 (Some (js ''r1''))] [(js ''r1'', 7)])
    = (BulkStarted [js ''a''] :: nat response,
       (world_of [(job ''a'' ''http://x/r'' ''processing'' 1 (Some (js ''r1'')))\<lparr>updatedAt := 5\<rparr>]
          [(js ''r1'', 7)])
         \<lparr>launched := [(js ''http://x/r'', js ''a'')]\<rparr>)"
  by (simp add: scrapeRecipe_def bulkScrapeRecipes_def upsert_and_launch_def upsert_def invalid_url_def
        str_truthy_def example_defs)

section \<open>Regular expressions: properties\<close>

lemma prefix_run:
  "(\<forall>x\<in>set (take n r). P x) \<and> n \<le> length r \<longleftrightarrow> n \<le> length (takeWhile P r)"
proof (induction r arbitrary: n)
  case Nil
  show ?case by simp
next
  case (Cons x r)
  show ?case
  proof (cases n)
    case 0
    then show ?thesis by simp
  next
    case (Suc m)
    with Cons [of m] show ?thesis by auto
  qed
qed

lemma set_ms_Rep:
  "set (ms (Rep k mn mx) (b, r, c)) =
     (\<lambda>n. (rev (take n r) @ b, drop n r, c))
       ` {n. mn \<le> n \<and> n \<le> length (takeWhile (in_cls k) r)
              \<and> (case mx of None \<Rightarrow> True | Some m \<Rightarrow> n \<le> m)}"
proof -
  have "set [mn ..< Suc (case mx of None \<Rightarrow> length (takeWhile (in_cls k) r)
                          | Some m \<Rightarrow> min m (length (takeWhile (in_cls k) r)))]
      = {n. mn \<le> n \<and> n \<le> length (takeWhile (in_cls k) r)
              \<and> (case mx of None \<Rightarrow> True | Some m \<Rightarrow> n \<le> m)}"
    by (auto simp del: upt_Suc split: option.splits)
  then show ?thesis
    by (simp add: Let_def del: upt_Suc set_upt)
qed

lemma reaches_Rep:
  "reaches (Rep k mn mx) (b, r, c) b' r' \<longleftrightarrow>
     (\<exists>w. r = w @ r' \<and> b' = rev w @ b \<and> wmatch (Rep k mn mx) w)"
proof
  assume "reaches (Rep k mn mx) (b, r, c) b' r'"
  then obtain n where n: "mn \<le> n" "n \<le> length (takeWhile (in_cls k) r)"
      "case mx of None \<Rightarrow> True | Some m \<Rightarrow> n \<le> m"
      and b': "b' = rev (take n r) @ b" and r': "r' = drop n r"
    unfolding reaches_def set_ms_Rep by auto
  from n(2) have pr: "(\<forall>x\<in>set (take n r). in_cls k x) \<and> n \<le> length r"
    by (simp only: prefix_run)
  then have len: "length (take n r) = n" by simp
  have "r = take n r @ r'" by (simp add: r')
  moreover have "wmatch (Rep k mn mx) (take n r)"
    using pr n(1,3) by (simp only: wmatch.simps len) simp
  ultimately show "\<exists>w. r = w @ r' \<and> b' = rev w @ b \<and> wmatch (Rep k mn mx) w"
    using b' by blast
next
  assume "\<exists>w. r = w @ r' \<and> b' = rev w @ b \<and> wmatch (Rep k mn mx) w"
  then obtain w where w: "r = w @ r'" "b' = rev w @ b" "\<forall>x\<in>set w. in_cls k x" "mn \<le> length w"
      "case mx of None \<Rightarrow> True | Some m \<Rightarrow> length w \<le> m"
    by auto
  have tk: "take (length w) r = w" "drop (length w) r = r'" using w(1) by simp_all
  have "(\<forall>x\<in>set (take (length w) r). in_cls k x) \<and> length w \<le> length r"
    using w(1,3) by simp
  then have run: "length w \<le> length (takeWhile (in_cls k) r)"
    by (simp only: prefix_run)
  have "(rev (take (length w) r) @ b, drop (length w) r, c) \<in> set (ms (Rep k mn mx) (b, r, c))"
    unfolding set_ms_Rep using w(4,5) run by blast
  then show "reaches (Rep k mn mx) (b, r, c) b' r'"
    unfolding reaches_def tk w(2) by blast
qed

lemma reaches_wmatch:
  "anchor_free p \<Longrightarrow>
   reaches p (b, r, c) b' r' \<longleftrightarrow> (\<exists>w. r = w @ r' \<and> b' = rev w @ b \<and> wmatch p w)"
proof (induction p arbitrary: b r c b' r')
  case Eps
  show ?case by (auto simp: reaches_def)
next
  case (Chr k)
  show ?case by (cases r) (auto simp: reaches_def)
next
  case (Rep k mn mx)
  show ?case by (rule reaches_Rep)
next
  case (Seq p q)
  then have afp: "anchor_free p" and afq: "anchor_free q" by simp_all
  have "reaches (Seq p q) (b, r, c) b' r' \<longleftrightarrow>
      (\<exists>b1 r1 c1. (b1, r1, c1) \<in> set (ms p (b, r, c)) \<and> reaches q (b1, r1, c1) b' r')"
    by (auto simp: reaches_def)
  also have "\<dots> \<longleftrightarrow> (\<exists>b1 r1. reaches p (b, r, c) b1 r1
        \<and> (\<exists>v. r1 = v @ r' \<and> b' = rev v @ b1 \<and> wmatch q v))"
    using Seq.IH(2) [OF afq] by (auto simp: reaches_def)
  also have "\<dots> \<longleftrightarrow> (\<exists>u v. r = u @ v @ r' \<and> b' = rev v @ rev u @ b \<and> wmatch p u \<and> wmatch q v)"
    using Seq.IH(1) [OF afp, of b r c] by blast
  also have "\<dots> \<longleftrightarrow> (\<exists>w. r = w @ r' \<and> b' = rev w @ b \<and> wmatch (Seq p q) w)"
  proof
    assume "\<exists>u v. r = u @ v @ r' \<and> b' = rev v @ rev u @ b \<and> wmatch p u \<and> wmatch q v"
    then obtain u v where "r = u @ v @ r'" "b' = rev v @ rev u @ b" "wmatch p u" "wmatch q v"
      by blast
    then have "r = (u @ v) @ r' \<and> b' = rev (u @ v) @ b \<and> wmatch (Seq p q) (u @ v)"
      by auto
    then show "\<exists>w. r = w @ r' \<and> b' = rev w @ b \<and> wmatch (Seq p q) w" by blast
  next
    assume "\<exists>w. r = w @ r' \<and> b' = rev w @ b \<and> wmatch (Seq p q) w"
    then obtain u v where "r = (u @ v) @ r'" "b' = rev (u @ v) @ b" "wmatch p u" "wmatch q v"
      by auto
    then have "r = u @ v @ r' \<and> b' = rev v @ rev u @ b \<and> wmatch p u \<and> wmatch q v"
      by simp
    then show "\<exists>u v. r = u @ v @ r' \<and> b' = rev v @ rev u @ b \<and> wmatch p u \<and> wmatch q v"
      by blast
  qed
  finally show ?case .
next
  case (Alt p q)
  then have afp: "anchor_free p" and afq: "anchor_free q" by simp_all
  have "reaches (Alt p q) (b, r, c) b' r' \<longleftrightarrow> reaches p (b, r, c) b' r' \<or> reaches q (b, r, c) b' r'"
    by (auto simp: reaches_def)
  then show ?case
    using Alt.IH(1) [OF afp, of b r c b' r'] Alt.IH(2) [OF afq, of b r c b' r'] by auto
next
  case (Opt p)
  then have afp: "anchor_free p" by simp
  note IH = Opt.IH [OF afp, of b r c]
  show ?case
  proof
    assume "reaches (Opt p) (b, r, c) b' r'"
    then have "reaches p (b, r, c) b' r' \<or> (b' = b \<and> r' = r)"
      by (auto simp: reaches_def)
    then show "\<exists>w. r = w @ r' \<and> b' = rev w @ b \<and> wmatch (Opt p) w"
      using IH [of b' r'] by auto
  next
    assume "\<exists>w. r = w @ r' \<and> b' = rev w @ b \<and> wmatch (Opt p) w"
    then obtain w where w: "r = w @ r'" "b' = rev w @ b" "w = [] \<or> wmatch p w" by auto
    show "reaches (Opt p) (b, r, c) b' r'"
    proof (cases "w = []")
      case True
      with w show ?thesis by (auto simp: reaches_def)
    next
      case False
      with w have "reaches p (b, r, c) b' r'" using IH [of b' r'] by blast
      moreover have "length r' \<noteq> length r" using w(1) False by simp
      ultimately show ?thesis by (auto simp: reaches_def)
    qed
  qed
next
  case (Grp k p)
  then have afp: "anchor_free p" by simp
  have "reaches (Grp k p) (b, r, c) b' r' \<longleftrightarrow> reaches p (b, r, c) b' r'"
    by (auto simp: reaches_def) force
  then show ?case using Grp.IH [OF afp, of b r c b' r'] by simp
next
  case Bol
  then show ?case by simp
next
  case Eol
  then show ?case by simp
next
  case WordB
  then show ?case by simp
qed


lemma re_search_None_iff:
  "re_search p b r = None \<longleftrightarrow> (\<forall>pre post. r = pre @ post \<longrightarrow> ms p (rev pre @ b, post, []) = [])"
proof (induction r arbitrary: b)
  case Nil
  show ?case by (auto split: list.splits)
next
  case (Cons x r)
  have "re_search p b (x # r) = None \<longleftrightarrow>
      ms p (b, x # r, []) = [] \<and> re_search p (x # b) r = None"
    by (auto split: list.splits)
  also have "\<dots> \<longleftrightarrow> ms p (b, x # r, []) = []
      \<and> (\<forall>pre post. r = pre @ post \<longrightarrow> ms p (rev pre @ x # b, post, []) = [])"
    by (simp only: Cons.IH)
  also have "\<dots> \<longleftrightarrow> (\<forall>pre post. x # r = pre @ post \<longrightarrow> ms p (rev pre @ b, post, []) = [])"
  proof
    assume h: "ms p (b, x # r, []) = []
      \<and> (\<forall>pre post. r = pre @ post \<longrightarrow> ms p (rev pre @ x # b, post, []) = [])"
    show "\<forall>pre post. x # r = pre @ post \<longrightarrow> ms p (rev pre @ b, post, []) = []"
    proof (intro allI impI)
      fix pre post
      assume e: "x # r = pre @ post"
      show "ms p (rev pre @ b, post, []) = []"
      proof (cases pre)
        case Nil
        with e h show ?thesis by simp
      next
        case (Cons y pre')
        with e have "y = x" "r = pre' @ post" by simp_all
        with h have "ms p (rev pre' @ x # b, post, []) = []" by blast
        with Cons \<open>y = x\<close> show ?thesis by simp
      qed
    qed
  next
    assume h: "\<forall>pre post. x # r = pre @ post \<longrightarrow> ms p (rev pre @ b, post, []) = []"
    have 1: "ms p (b, x # r, []) = []" using h [rule_format, of "[]" "x # r"] by simp
    have 2: "\<forall>pre post. r = pre @ post \<longrightarrow> ms p (rev pre @ x # b, post, []) = []"
    proof (intro allI impI)
      fix pre post
      assume "r = pre @ post"
      then have "x # r = (x # pre) @ post" by simp
      from h [rule_format, OF this] show "ms p (rev pre @ x # b, post, []) = []" by simp
    qed
    from 1 2 show "ms p (b, x # r, []) = []
      \<and> (\<forall>pre post. r = pre @ post \<longrightarrow> ms p (rev pre @ x # b, post, []) = [])" by blast
  qed
  finally show ?case .
qed

lemma ms_empty_iff: "ms p s = [] \<longleftrightarrow> (\<forall>b' r'. \<not> reaches p s b' r')"
proof -
  have "ms p s \<noteq> [] \<longleftrightarrow> (\<exists>t. t \<in> set (ms p s))"
    by (cases "ms p s") auto
  also have "\<dots> \<longleftrightarrow> (\<exists>b' r'. reaches p s b' r')"
    unfolding reaches_def by (metis prod_cases3)
  finally show ?thesis by blast
qed

lemma reaches_seqs_Cons:
  "reaches (seqs (p # ps)) s b' r' \<longleftrightarrow> (\<exists>s1 \<in> set (ms p s). reaches (seqs ps) s1 b' r')"
  by (auto simp: reaches_def seqs_def)

lemma reaches_seqs_Eol:
  "reaches (seqs (ps @ [Eol])) s b' r' \<longleftrightarrow> reaches (seqs ps) s b' r' \<and> r' = []"
proof (induction ps arbitrary: s)
  case Nil
  obtain b r c where s: "s = (b, r, c)" by (cases s)
  show ?case unfolding s by (auto simp: reaches_def seqs_def)
next
  case (Cons p ps)
  have "reaches (seqs ((p # ps) @ [Eol])) s b' r'
      \<longleftrightarrow> (\<exists>s1 \<in> set (ms p s). reaches (seqs (ps @ [Eol])) s1 b' r')"
    by (simp add: reaches_seqs_Cons)
  also have "\<dots> \<longleftrightarrow> (\<exists>s1 \<in> set (ms p s). reaches (seqs ps) s1 b' r' \<and> r' = [])"
    by (simp only: Cons.IH)
  also have "\<dots> \<longleftrightarrow> reaches (seqs (p # ps)) s b' r' \<and> r' = []"
    by (auto simp: reaches_seqs_Cons)
  finally show ?case .
qed

lemma ms_seqs_Bol:
  "ms (seqs (Bol # ps)) (b, r, c) = (if b = [] then ms (seqs ps) (b, r, c) else [])"
  by (simp add: seqs_def)

text \<open>A pattern \<open>^ ... $\<close> with an anchor-free body finds a match exactly in the texts the body matches as a whole.\<close>

lemma anchored_search_iff:
  assumes "anchor_free (seqs ps)"
  shows "re_search (seqs (Bol # ps @ [Eol])) [] line \<noteq> None \<longleftrightarrow> wmatch (seqs ps) line"
proof -
  have start: "(\<exists>pre post. line = pre @ post \<and> ms (seqs (Bol # ps @ [Eol])) (rev pre @ [], post, []) \<noteq> [])
      \<longleftrightarrow> ms (seqs (ps @ [Eol])) ([], line, []) \<noteq> []"
  proof
    assume "\<exists>pre post. line = pre @ post \<and> ms (seqs (Bol # ps @ [Eol])) (rev pre @ [], post, []) \<noteq> []"
    then obtain pre post where e: "line = pre @ post"
      and m: "ms (seqs (Bol # ps @ [Eol])) (rev pre @ [], post, []) \<noteq> []" by blast
    from m have "pre = []" by (simp add: ms_seqs_Bol split: if_splits)
    with e m show "ms (seqs (ps @ [Eol])) ([], line, []) \<noteq> []" by (simp add: ms_seqs_Bol)
  next
    assume "ms (seqs (ps @ [Eol])) ([], line, []) \<noteq> []"
    then have "line = [] @ line \<and> ms (seqs (Bol # ps @ [Eol])) (rev [] @ [], line, []) \<noteq> []"
      by (simp add: ms_seqs_Bol)
    then show "\<exists>pre post. line = pre @ post \<and> ms (seqs (Bol # ps @ [Eol])) (rev pre @ [], post, []) \<noteq> []"
      by blast
  qed
  have "re_search (seqs (Bol # ps @ [Eol])) [] line \<noteq> None
      \<longleftrightarrow> (\<exists>pre post. line = pre @ post \<and> ms (seqs (Bol # ps @ [Eol])) (rev pre @ [], post, []) \<noteq> [])"
    by (simp only: re_search_None_iff) blast
  also have "\<dots> \<longleftrightarrow> ms (seqs (ps @ [Eol])) ([], line, []) \<noteq> []"
    by (rule start)
  also have "\<dots> \<longleftrightarrow> (\<exists>b'. reaches (seqs ps) ([], line, []) b' [])"
    by (simp add: ms_empty_iff reaches_seqs_Eol)
  also have "\<dots> \<longleftrightarrow> wmatch (seqs ps) line"
    by (simp add: reaches_wmatch [OF assms])
  finally show ?thesis .
qed

lemma wmatch_seqs_Nil: "wmatch (seqs []) w \<longleftrightarrow> w = []"
  by (simp add: seqs_def)

lemma wmatch_seqs_Cons:
  "wmatch (seqs (p # ps)) w \<longleftrightarrow> (\<exists>u v. w = u @ v \<and> wmatch p u \<and> wmatch (seqs ps) v)"
  by (simp add: seqs_def)

lemma wmatch_digits_Suc: "wmatch (Rep Digit (Suc 0) None) w \<longleftrightarrow> digits1 w"
  by (cases w) (auto simp: digits1_def)

lemma wmatch_digits: "wmatch (Rep Digit 1 None) w \<longleftrightarrow> digits1 w"
  using wmatch_digits_Suc by simp

lemma wmatch_spaces0: "wmatch (Rep Space 0 None) w \<longleftrightarrow> (\<forall>c\<in>set w. isSpace c)"
  by simp

lemma wmatch_spaces1: "wmatch (Rep Space 1 None) w \<longleftrightarrow> w \<noteq> [] \<and> (\<forall>c\<in>set w. isSpace c)"
  by (cases w) auto

text \<open>A pattern without anchors finds a match exactly in the texts that contain a text of its language.\<close>

lemma unanchored_search_iff:
  assumes "anchor_free p"
  shows "re_search p [] t \<noteq> None \<longleftrightarrow> (\<exists>pre w post. t = pre @ w @ post \<and> wmatch p w)"
proof -
  have "re_search p [] t \<noteq> None
      \<longleftrightarrow> (\<exists>pre r. t = pre @ r \<and> ms p (rev pre @ [], r, []) \<noteq> [])"
    by (simp only: re_search_None_iff) blast
  also have "\<dots> \<longleftrightarrow> (\<exists>pre r. t = pre @ r \<and> (\<exists>b' r'. reaches p (rev pre @ [], r, []) b' r'))"
    by (simp only: ms_empty_iff) blast
  also have "\<dots> \<longleftrightarrow> (\<exists>pre r. t = pre @ r \<and> (\<exists>r' w. r = w @ r' \<and> wmatch p w))"
    by (simp only: reaches_wmatch [OF assms]) blast
  also have "\<dots> \<longleftrightarrow> (\<exists>pre w post. t = pre @ w @ post \<and> wmatch p w)"
    by blast
  finally show ?thesis .
qed

lemma wmatch_digits_group: "wmatch (Grp k (Rep Digit 1 None)) w \<longleftrightarrow> digits1 w"
  by (cases w) (auto simp: digits1_def)

lemma wmatch_letterI: "wmatch (Chr (OneI l)) w \<longleftrightarrow> (\<exists>c. w = [c] \<and> lowerCu c = lowerCu l)"
  by simp

lemma token_search_iff:
  assumes "anchor_free tail" and "wmatch tail []" and "lowerCu l = l"
  shows "re_match (seqs [Grp 1 (Rep Digit 1 None), Rep Space 0 None, Chr (OneI l), tail]) t \<noteq> None
     \<longleftrightarrow> time_token l t"
proof -
  let ?p = "seqs [Grp 1 (Rep Digit 1 None), Rep Space 0 None, Chr (OneI l), tail]"
  have af: "anchor_free ?p" using assms(1) by (simp add: seqs_def)
  have w: "wmatch ?p w \<longleftrightarrow>
      (\<exists>d ws c tl. w = d @ ws @ c # tl \<and> digits1 d \<and> (\<forall>x\<in>set ws. isSpace x)
         \<and> lowerCu c = l \<and> wmatch tail tl)" for w
  proof -
    have "wmatch ?p w \<longleftrightarrow>
        (\<exists>d v1. w = d @ v1 \<and> digits1 d
          \<and> (\<exists>ws v2. v1 = ws @ v2 \<and> (\<forall>x\<in>set ws. isSpace x)
            \<and> (\<exists>cs tl. v2 = cs @ tl \<and> (\<exists>c. cs = [c] \<and> lowerCu c = lowerCu l) \<and> wmatch tail tl)))"
      by (simp only: wmatch_seqs_Cons wmatch_seqs_Nil wmatch_digits_group wmatch_spaces0
            wmatch_letterI) simp
    also have "\<dots> \<longleftrightarrow> (\<exists>d ws c tl. w = d @ ws @ c # tl \<and> digits1 d \<and> (\<forall>x\<in>set ws. isSpace x)
         \<and> lowerCu c = l \<and> wmatch tail tl)"
    proof
      assume "\<exists>d v1. w = d @ v1 \<and> digits1 d
          \<and> (\<exists>ws v2. v1 = ws @ v2 \<and> (\<forall>x\<in>set ws. isSpace x)
            \<and> (\<exists>cs tl. v2 = cs @ tl \<and> (\<exists>c. cs = [c] \<and> lowerCu c = lowerCu l) \<and> wmatch tail tl))"
      then obtain d ws c tl where "w = d @ ws @ [c] @ tl" "digits1 d" "\<forall>x\<in>set ws. isSpace x"
          "lowerCu c = lowerCu l" "wmatch tail tl"
        by blast
      then have "w = d @ ws @ c # tl \<and> digits1 d \<and> (\<forall>x\<in>set ws. isSpace x)
          \<and> lowerCu c = l \<and> wmatch tail tl"
        using assms(3) by simp
      then show "\<exists>d ws c tl. w = d @ ws @ c # tl \<and> digits1 d \<and> (\<forall>x\<in>set ws. isSpace x)
          \<and> lowerCu c = l \<and> wmatch tail tl"
        by blast
    next
      assume "\<exists>d ws c tl. w = d @ ws @ c # tl \<and> digits1 d \<and> (\<forall>x\<in>set ws. isSpace x)
          \<and> lowerCu c = l \<and> wmatch tail tl"
      then obtain d ws c tl where h: "w = d @ ws @ c # tl" "digits1 d" "\<forall>x\<in>set ws. isSpace x"
          "lowerCu c = l" "wmatch tail tl"
        by blast
      have 3: "\<exists>cs tl'. c # tl = cs @ tl' \<and> (\<exists>c'. cs = [c'] \<and> lowerCu c' = lowerCu l) \<and> wmatch tail tl'"
        using h(4,5) assms(3) by (intro exI [of _ "[c]"] exI [of _ tl]) simp
      have 2: "\<exists>ws' v2. ws @ c # tl = ws' @ v2 \<and> (\<forall>x\<in>set ws'. isSpace x)
            \<and> (\<exists>cs tl'. v2 = cs @ tl' \<and> (\<exists>c'. cs = [c'] \<and> lowerCu c' = lowerCu l) \<and> wmatch tail tl')"
        using h(3) 3 by (intro exI [of _ ws] exI [of _ "c # tl"]) simp
      show "\<exists>d v1. w = d @ v1 \<and> digits1 d
          \<and> (\<exists>ws v2. v1 = ws @ v2 \<and> (\<forall>x\<in>set ws. isSpace x)
            \<and> (\<exists>cs tl. v2 = cs @ tl \<and> (\<exists>c. cs = [c] \<and> lowerCu c = lowerCu l) \<and> wmatch tail tl))"
        using h(1,2) 2 by (intro exI [of _ d] exI [of _ "ws @ c # tl"]) simp
    qed
    finally show ?thesis .
  qed
  have "re_match ?p t \<noteq> None \<longleftrightarrow> (\<exists>pre w post. t = pre @ w @ post \<and> wmatch ?p w)"
    using unanchored_search_iff [OF af, of t] by (simp add: re_match_def)
  also have "\<dots> \<longleftrightarrow> time_token l t"
  proof
    assume "\<exists>pre w post. t = pre @ w @ post \<and> wmatch ?p w"
    then obtain pre post d ws c tl where "t = pre @ (d @ ws @ c # tl) @ post" "digits1 d"
        "\<forall>x\<in>set ws. isSpace x" "lowerCu c = l"
      unfolding w by blast
    then have "t = pre @ d @ ws @ c # (tl @ post) \<and> digits1 d \<and> (\<forall>x\<in>set ws. isSpace x) \<and> lowerCu c = l"
      by simp
    then show "time_token l t" unfolding time_token_def by blast
  next
    assume "time_token l t"
    then obtain pre d ws c post where t: "t = pre @ d @ ws @ c # post" and d: "digits1 d"
        and ws: "\<forall>x\<in>set ws. isSpace x" and c: "lowerCu c = l"
      unfolding time_token_def by blast
    have "wmatch ?p (d @ ws @ c # [])"
      unfolding w using d ws c assms(2) by blast
    moreover have "t = pre @ (d @ ws @ c # []) @ post" using t by simp
    ultimately show "\<exists>pre w post. t = pre @ w @ post \<and> wmatch ?p w" by blast
  qed
  finally show ?thesis .
qed

lemma hour_re_iff: "re_match hour_re t \<noteq> None \<longleftrightarrow> time_token 104 t"
  unfolding hour_re_def
  by (rule token_search_iff) (simp_all add: litI_def lowerCu_def)

lemma minute_re_iff: "re_match minute_re t \<noteq> None \<longleftrightarrow> time_token 109 t"
  unfolding minute_re_def
  by (rule token_search_iff) (simp_all add: litI_def lowerCu_def)

section \<open>The field normalizer: properties\<close>

lemmas regex_defs =
  js_def seqs_def lit_def litI_def re_match_def re_test_def grp_def grp_or_zero_def
  isDigit_def isSpace_def isLineTerminator_def isAlpha_def lowerCu_def headIsWord_def
  isWordChar_def Let_def

lemmas number_defs =
  parseInt_def decimal_def digitVal_def to_double_def to_double_pos_def binary_exponent_def
  round_even_def pow2_def expo_ge1.simps expo_lt1.simps

lemmas time_defs = parseTime_def parseTimeFromText_def iso_re_def hour_re_def minute_re_def

lemmas ingredient_defs =
  parseIngredient_def ingredient_re_def parseFraction_def parseFloat_def split_first_two_def
  trim_def exponent_part_def pow10_def

lemma parseTime_iso: "parseTime (Some (js ''PT1H30M'')) = Some (Num 90)"
  by (simp add: time_defs regex_defs number_defs)

lemma parseTime_text: "parseTime (Some (js ''45 minutes'')) = Some (Num 45)"
  by (simp add: time_defs regex_defs number_defs)

lemma parseTime_PTxyz: "parseTime (Some (js ''PTxyz'')) = Some (Num 0)"
  by (simp add: time_defs regex_defs number_defs)

lemma no_tokens_PTxyz:
  "re_match hour_re (js ''PTxyz'') = None \<and> re_match minute_re (js ''PTxyz'') = None
   \<and> parseTimeFromText (js ''PTxyz'') = None"
  by (simp add: time_defs regex_defs number_defs)

text \<open>
  Off the \<open>PT\<close> branch the parser does return \<open>undefined\<close> when the text has neither a
  token of hours nor a token of minutes; on the \<open>PT\<close> branch it returns a number for
  every input.
\<close>

lemma parseTime_no_token:
  assumes "\<not> startsWith t (js ''PT'')" and "\<not> time_token 104 t" and "\<not> time_token 109 t"
  shows "parseTime (Some t) = None"
  using assms hour_re_iff [of t] minute_re_iff [of t]
  by (simp add: parseTime_def parseTimeFromText_def)

lemma parseTime_PT_defined: "\<exists>n. parseTime (Some (js ''PT'' @ rest)) = Some n"
  by (simp add: time_defs regex_defs number_defs split: list.splits)

text \<open>
  C7.  The duration parser maps "PT1H30M" to 90 and "45 minutes" to 45, and is to return
  \<open>undefined\<close> when nothing parses.  From "PTxyz" neither a \<open>PT#H#M\<close> component nor an
  hour token nor a minute token parses (the text parser \<open>parseTimeFromText\<close> returns
  \<open>undefined\<close> for it), and \<open>parseTime\<close> returns the number 0: the pattern of the \<open>PT\<close>
  branch matches every text that starts with "PT", so that branch never falls through
  and every such text gets a number.
\<close>

theorem parseTime_PT_prefix_returns_zero:
  "parseTime (Some (js ''PT1H30M'')) = Some (Num 90)
   \<and> parseTime (Some (js ''45 minutes'')) = Some (Num 45)
   \<and> re_match hour_re (js ''PTxyz'') = None
   \<and> re_match minute_re (js ''PTxyz'') = None
   \<and> parseTimeFromText (js ''PTxyz'') = None
   \<and> parseTime (Some (js ''PTxyz'')) = Some (Num 0)
   \<and> (\<exists>n. parseTime (Some (js ''PT'' @ rest)) = Some n)"
  using parseTime_iso parseTime_text parseTime_PTxyz no_tokens_PTxyz parseTime_PT_defined [of rest]
  by simp

lemma leads_seqs_Nil: "leads (seqs []) s s"
  by (simp add: seqs_def leads_def)

lemma leads_seqs_Cons: "leads p s s' \<Longrightarrow> leads (seqs ps) s' s'' \<Longrightarrow> leads (seqs (p # ps)) s s''"
  by (auto simp: leads_def seqs_def)

lemma leads_Chr: "in_cls k x \<Longrightarrow> leads (Chr k) (b, x # r, c) (x # b, r, c)"
  by (simp add: leads_def)

lemma takeWhile_run:
  assumes "\<forall>x\<in>set xs. P x" and "r = [] \<or> \<not> P (hd r)"
  shows "takeWhile P (xs @ r) = xs"
proof -
  have "takeWhile P r = []" using assms(2) by (cases r) auto
  with assms(1) show ?thesis by simp
qed

lemma leads_Rep:
  assumes "\<forall>x\<in>set xs. in_cls k x" and "r = [] \<or> \<not> in_cls k (hd r)" and "mn \<le> length xs"
  shows "leads (Rep k mn None) (b, xs @ r, c) (rev xs @ b, r, c)"
proof -
  have run: "length (takeWhile (in_cls k) (xs @ r)) = length xs"
    by (simp only: takeWhile_run [OF assms(1,2)])
  have "rev [mn ..< Suc (length xs)] = length xs # rev [mn ..< length xs]"
    using assms(3) by simp
  then show ?thesis
    by (simp add: leads_def run Let_def)
qed

lemma leads_Opt_take:
  "leads p s s' \<Longrightarrow> length (fst (snd s')) \<noteq> length (fst (snd s)) \<Longrightarrow> leads (Opt p) s s'"
  by (auto simp: leads_def)

lemma leads_Opt_skip: "ms p s = [] \<Longrightarrow> leads (Opt p) s s"
  by (simp add: leads_def)

lemma leads_Grp:
  "leads p (b, r, c) (b', r', c')
   \<Longrightarrow> leads (Grp k p) (b, r, c) (b', r', (k, take (length r - length r') r) # c')"
  by (auto simp: leads_def)

lemma leads_Bol: "leads Bol ([], r, c) ([], r, c)"
  by (simp add: leads_def)

lemma leads_Eol: "leads Eol (b, [], c) (b, [], c)"
  by (simp add: leads_def)

lemma re_search_leads: "leads p ([], text, []) s' \<Longrightarrow> re_search p [] text = Some s'"
  by (cases "text") (auto simp: leads_def)

lemma parseFloat_digits:
  assumes "ds \<noteq> []" and "\<forall>c\<in>set ds. isDigit c"
  shows "parseFloat ds = to_double (of_nat (decimal ds))"
proof -
  obtain c cs where ds: "ds = c # cs" using assms(1) by (cases ds) auto
  have c: "isDigit c" using assms(2) ds by simp
  have tw: "takeWhile isDigit ds = ds" "dropWhile isDigit ds = []"
    using assms(2) by simp_all
  have d1: "dropWhile isSpace ds = ds"
    using c ds by (auto simp: isDigit_def isSpace_def isLineTerminator_def)
  have neg: "(case ds of [] \<Rightarrow> False | c # _ \<Rightarrow> c = 45) = False"
    using c ds by (auto simp: isDigit_def)
  have u: "(case ds of [] \<Rightarrow> [] | c # r \<Rightarrow> if c = 45 \<or> c = 43 then r else ds) = ds"
    using c ds by (auto simp: isDigit_def)
  have inf: "startsWith ds (js ''Infinity'') = False"
    using c ds by (auto simp: isDigit_def js_def)
  show ?thesis
    by (simp add: parseFloat_def Let_def d1 neg u inf tw exponent_part_def pow10_def assms(1))
qed

lemma parseFraction_simple:
  assumes "a \<noteq> []" and "\<forall>c\<in>set a. isDigit c" and "b \<noteq> []" and "\<forall>c\<in>set b. isDigit c"
  shows "parseFraction (a @ js ''/'' @ b) = js_div (to_double (of_nat (decimal a))) (to_double (of_nat (decimal b)))"
proof -
  have slash: "js ''/'' = [47]" by (simp add: js_def)
  have na: "\<forall>c\<in>set a. c \<noteq> 47" and nb: "\<forall>c\<in>set b. c \<noteq> 47"
    using assms(2,4) by (auto simp: isDigit_def)
  have inc: "str_includes (a @ [47] @ b) [47]"
    by (induction a) auto
  have tw: "takeWhile (\<lambda>c. c \<noteq> 47) (a @ 47 # b) = a"
    using na by simp
  have dw: "dropWhile (\<lambda>c. c \<noteq> 47) (a @ 47 # b) = 47 # b"
    using na by simp
  have twb: "takeWhile (\<lambda>c. c \<noteq> 47) b = b"
    using nb by simp
  have "split_first_two 47 (a @ [47] @ b) = (a, Some b)"
    by (simp add: split_first_two_def tw dw twb)
  with inc show ?thesis
    by (simp add: parseFraction_def slash parseFloat_digits assms)
qed


lemma parseIngredient_half_cup:
  "parseIngredient (js ''1/2 cup sugar'')
     = \<lparr>name = js ''sugar'', amount = Num (1 / 2), unit = Some (js ''cup'')\<rparr>"
  by (simp add: ingredient_defs regex_defs number_defs)

lemma wmatch_slash_digits:
  "wmatch (Opt (seqs [Chr (One 47), Rep Digit 1 None])) w \<longleftrightarrow> w = [] \<or> (\<exists>d. w = 47 # d \<and> digits1 d)"
  by (auto simp: wmatch_seqs_Cons wmatch_seqs_Nil wmatch_digits_Suc simp del: wmatch.simps(3))

lemma wmatch_dot_digits:
  "wmatch (Opt (seqs [Chr (One 46), Rep Digit 1 None])) w \<longleftrightarrow> w = [] \<or> (\<exists>d. w = 46 # d \<and> digits1 d)"
  by (auto simp: wmatch_seqs_Cons wmatch_seqs_Nil wmatch_digits_Suc simp del: wmatch.simps(3))

lemma wmatch_amount:
  "wmatch (Grp 1 (seqs [Rep Digit 1 None,
                        Opt (seqs [Chr (One 47), Rep Digit 1 None]),
                        Opt (seqs [Chr (One 46), Rep Digit 1 None])])) t \<longleftrightarrow> amount_text t"
proof -
  have "wmatch (Grp 1 (seqs [Rep Digit 1 None,
                        Opt (seqs [Chr (One 47), Rep Digit 1 None]),
                        Opt (seqs [Chr (One 46), Rep Digit 1 None])])) t
    \<longleftrightarrow> (\<exists>d v. t = d @ v \<and> digits1 d
          \<and> (\<exists>f e. v = f @ e \<and> (f = [] \<or> (\<exists>d2. f = 47 # d2 \<and> digits1 d2))
                \<and> (e = [] \<or> (\<exists>d3. e = 46 # d3 \<and> digits1 d3))))"
    by (simp only: wmatch.simps(7) wmatch_seqs_Cons wmatch_seqs_Nil wmatch_digits
          wmatch_slash_digits wmatch_dot_digits) simp
  also have "\<dots> \<longleftrightarrow> amount_text t"
    unfolding amount_text_def by blast
  finally show ?thesis .
qed

lemma wmatch_unit: "wmatch (Opt (Grp 2 (Rep Alpha 1 None))) w \<longleftrightarrow> (\<forall>c\<in>set w. isAlpha c)"
  by (cases w) auto

lemma wmatch_name:
  "wmatch (Grp 3 (Rep AnyChar 1 None)) w \<longleftrightarrow> w \<noteq> [] \<and> (\<forall>c\<in>set w. \<not> isLineTerminator c)"
  by (cases w) auto

lemma wmatch_ingredient_body: "wmatch (seqs ingredient_body) line \<longleftrightarrow> ingredient_line line"
proof -
  have "wmatch (seqs ingredient_body) line
    \<longleftrightarrow> (\<exists>amt v1. line = amt @ v1 \<and> amount_text amt
          \<and> (\<exists>ws1 v2. v1 = ws1 @ v2 \<and> (\<forall>c\<in>set ws1. isSpace c)
            \<and> (\<exists>un v3. v2 = un @ v3 \<and> (\<forall>c\<in>set un. isAlpha c)
              \<and> (\<exists>ws2 nm. v3 = ws2 @ nm \<and> (ws2 \<noteq> [] \<and> (\<forall>c\<in>set ws2. isSpace c))
                  \<and> nm \<noteq> [] \<and> (\<forall>c\<in>set nm. \<not> isLineTerminator c)))))"
    unfolding ingredient_body_def
    by (simp only: wmatch_seqs_Cons wmatch_seqs_Nil wmatch_amount wmatch_spaces0 wmatch_spaces1
          wmatch_unit wmatch_name) simp
  also have "\<dots> \<longleftrightarrow> ingredient_line line"
    unfolding ingredient_line_def by blast
  finally show ?thesis .
qed

lemma ingredient_re_anchored: "ingredient_re = seqs (Bol # ingredient_body @ [Eol])"
  by (simp add: ingredient_re_def ingredient_body_def)

lemma anchor_free_ingredient_body: "anchor_free (seqs ingredient_body)"
  by (simp add: ingredient_body_def seqs_def)

lemma ingredient_re_matches_iff: "re_match ingredient_re line \<noteq> None \<longleftrightarrow> ingredient_line line"
proof -
  have "re_match ingredient_re line \<noteq> None \<longleftrightarrow> re_search ingredient_re [] line \<noteq> None"
    by (simp add: re_match_def)
  also have "\<dots> \<longleftrightarrow> wmatch (seqs ingredient_body) line"
    unfolding ingredient_re_anchored by (rule anchored_search_iff [OF anchor_free_ingredient_body])
  also have "\<dots> \<longleftrightarrow> ingredient_line line"
    by (rule wmatch_ingredient_body)
  finally show ?thesis .
qed

lemma ms_captures:
  "(b', r', c') \<in> set (ms p (b, r, c)) \<Longrightarrow> \<exists>new. c' = new @ c \<and> fst ` set new \<subseteq> groups p"
proof (induction p arbitrary: b r c b' r' c')
  case Eps
  then show ?case by simp
next
  case (Chr k)
  then show ?case by (cases r) (auto split: if_splits)
next
  case (Rep k mn mx)
  then show ?case unfolding set_ms_Rep by auto
next
  case (Seq p q)
  from Seq.prems obtain b1 r1 c1 where 1: "(b1, r1, c1) \<in> set (ms p (b, r, c))"
      and 2: "(b', r', c') \<in> set (ms q (b1, r1, c1))"
    by auto
  from Seq.IH(1) [OF 1] obtain n1 where n1: "c1 = n1 @ c" "fst ` set n1 \<subseteq> groups p" by blast
  from Seq.IH(2) [OF 2] obtain n2 where n2: "c' = n2 @ c1" "fst ` set n2 \<subseteq> groups q" by blast
  have "c' = (n2 @ n1) @ c \<and> fst ` set (n2 @ n1) \<subseteq> groups (Seq p q)"
    using n1 n2 by auto
  then show ?case by blast
next
  case (Alt p q)
  from Alt.prems have "(b', r', c') \<in> set (ms p (b, r, c)) \<or> (b', r', c') \<in> set (ms q (b, r, c))"
    by simp
  then show ?case
  proof
    assume "(b', r', c') \<in> set (ms p (b, r, c))"
    from Alt.IH(1) [OF this] show ?thesis by auto
  next
    assume "(b', r', c') \<in> set (ms q (b, r, c))"
    from Alt.IH(2) [OF this] show ?thesis by auto
  qed
next
  case (Opt p)
  from Opt.prems have "(b', r', c') \<in> set (ms p (b, r, c)) \<or> (b', r', c') = (b, r, c)"
    by auto
  then show ?case
  proof
    assume "(b', r', c') \<in> set (ms p (b, r, c))"
    from Opt.IH [OF this] show ?thesis by auto
  next
    assume "(b', r', c') = (b, r, c)"
    then have "c' = [] @ c \<and> fst ` set [] \<subseteq> groups (Opt p)" by simp
    then show ?thesis by blast
  qed
next
  case (Grp k p)
  from Grp.prems obtain c0 where 1: "(b', r', c0) \<in> set (ms p (b, r, c))"
      and c': "c' = (k, take (length r - length r') r) # c0"
    by auto
  from Grp.IH [OF 1] obtain n where n: "c0 = n @ c" "fst ` set n \<subseteq> groups p" by blast
  have "c' = ((k, take (length r - length r') r) # n) @ c
      \<and> fst ` set ((k, take (length r - length r') r) # n) \<subseteq> groups (Grp k p)"
    using c' n by auto
  then show ?case by blast
next
  case Bol
  then show ?case by (auto split: if_splits)
next
  case Eol
  then show ?case by (auto split: if_splits)
next
  case WordB
  then show ?case by (auto split: if_splits)
qed

lemma map_of_new:
  assumes "fst ` set new \<subseteq> G" and "k \<notin> G"
  shows "map_of (new @ c) k = map_of c k"
proof -
  have "map_of new k = None" using assms by (auto simp: map_of_eq_None_iff)
  then show ?thesis by (simp add: map_add_def)
qed

lemma re_search_Some_mem:
  "re_search p b r = Some s \<Longrightarrow> \<exists>pre post. r = pre @ post \<and> s \<in> set (ms p (rev pre @ b, post, []))"
proof (induction r arbitrary: b)
  case Nil
  then have "s \<in> set (ms p (rev [] @ b, [], []))" by (auto split: list.splits)
  then show ?case by blast
next
  case (Cons x r)
  show ?case
  proof (cases "ms p (b, x # r, [])")
    case Nil
    with Cons.prems have "re_search p (x # b) r = Some s" by simp
    from Cons.IH [OF this] obtain pre post where "r = pre @ post"
        "s \<in> set (ms p (rev pre @ x # b, post, []))" by blast
    then have "x # r = (x # pre) @ post \<and> s \<in> set (ms p (rev (x # pre) @ b, post, []))" by simp
    then show ?thesis by blast
  next
    case (Cons s' rest)
    with Cons.prems have "s' = s" by simp
    with Cons have "x # r = [] @ (x # r) \<and> s \<in> set (ms p (rev [] @ b, x # r, []))" by simp
    then show ?thesis by blast
  qed
qed

lemma set_ms_seqs_Cons:
  "set (ms (seqs (p # ps)) s) = (\<Union>s1\<in>set (ms p s). set (ms (seqs ps) s1))"
  by (simp add: seqs_def)

lemma ms_Grp_capture:
  assumes "anchor_free p" and "(b', r', c') \<in> set (ms (Grp k p) (b, r, c))"
  shows "\<exists>w. r = w @ r' \<and> wmatch p w \<and> map_of c' k = Some w"
proof -
  from assms(2) obtain c0 where 1: "(b', r', c0) \<in> set (ms p (b, r, c))"
      and c': "c' = (k, take (length r - length r') r) # c0"
    by auto
  from 1 have "reaches p (b, r, c) b' r'" unfolding reaches_def by blast
  then obtain w where w: "r = w @ r'" "wmatch p w"
    using reaches_wmatch [OF assms(1)] by blast
  have "take (length r - length r') r = w" using w(1) by simp
  with c' w show ?thesis by auto
qed

lemma ingredient_body_split: "ingredient_body = Grp 1 amount_re # ingredient_tail"
  by (simp add: ingredient_body_def amount_re_def ingredient_tail_def)

lemma anchor_free_amount_re: "anchor_free amount_re"
  by (simp add: amount_re_def seqs_def)

lemma anchor_free_ingredient_tail: "anchor_free (seqs ingredient_tail)"
  by (simp add: ingredient_tail_def seqs_def)

lemma groups_ingredient_tail: "groups (seqs (ingredient_tail @ [Eol])) = {2, 3}"
  by (auto simp: ingredient_tail_def seqs_def)

lemma wmatch_amount_re: "wmatch amount_re t \<longleftrightarrow> amount_text t"
  using wmatch_amount [of t] by (simp add: amount_re_def)

text \<open>A match of the pattern captures as group 1 an amount, and the rest of the line has the shape of the tail.\<close>

lemma ingredient_re_group1:
  assumes "re_match ingredient_re line = Some m"
  shows "\<exists>amt rest. line = amt @ rest \<and> amount_text amt \<and> wmatch (seqs ingredient_tail) rest
           \<and> m 1 = Some amt"
proof -
  from assms obtain b' r' c' where s: "re_search ingredient_re [] line = Some (b', r', c')"
      and m: "m = map_of c'"
    by (auto simp: re_match_def)
  from re_search_Some_mem [OF s] obtain pre post where line: "line = pre @ post"
      and mem: "(b', r', c') \<in> set (ms ingredient_re (rev pre @ [], post, []))"
    by blast
  have re: "ingredient_re = seqs (Bol # Grp 1 amount_re # ingredient_tail @ [Eol])"
    by (simp add: ingredient_re_anchored ingredient_body_split)
  from mem have pre: "pre = []"
    unfolding re by (simp add: ms_seqs_Bol split: if_splits)
  with mem line have "(b', r', c') \<in> set (ms (seqs (Grp 1 amount_re # ingredient_tail @ [Eol])) ([], line, []))"
    unfolding re by (simp add: ms_seqs_Bol)
  then have "\<exists>s1\<in>set (ms (Grp 1 amount_re) ([], line, [])).
      (b', r', c') \<in> set (ms (seqs (ingredient_tail @ [Eol])) s1)"
    unfolding set_ms_seqs_Cons by blast
  then obtain s1 where g': "s1 \<in> set (ms (Grp 1 amount_re) ([], line, []))"
      and t': "(b', r', c') \<in> set (ms (seqs (ingredient_tail @ [Eol])) s1)"
    by blast
  obtain b1 r1 c1 where s1: "s1 = (b1, r1, c1)" by (cases s1)
  have g: "(b1, r1, c1) \<in> set (ms (Grp 1 amount_re) ([], line, []))"
    and t: "(b', r', c') \<in> set (ms (seqs (ingredient_tail @ [Eol])) (b1, r1, c1))"
    using g' t' unfolding s1 by blast+
  from ms_Grp_capture [OF anchor_free_amount_re g] obtain amt where amt: "line = amt @ r1"
      "wmatch amount_re amt" "map_of c1 1 = Some amt"
    by blast
  from ms_captures [OF t] obtain new where new: "c' = new @ c1"
      "fst ` set new \<subseteq> groups (seqs (ingredient_tail @ [Eol]))"
    by blast
  have "map_of c' 1 = map_of c1 1"
    unfolding new(1) using new(2) by (intro map_of_new [where G = "{2, 3}"]) (simp_all add: groups_ingredient_tail)
  then have m1: "m 1 = Some amt" using m amt(3) by simp
  from t have "reaches (seqs (ingredient_tail @ [Eol])) (b1, r1, c1) b' r'"
    unfolding reaches_def by blast
  then have "reaches (seqs ingredient_tail) (b1, r1, c1) b' r' \<and> r' = []"
    using reaches_seqs_Eol [of ingredient_tail "(b1, r1, c1)" b' r'] by blast
  then have "reaches (seqs ingredient_tail) (b1, r1, c1) b' r'" and "r' = []"
    by blast+
  then have "wmatch (seqs ingredient_tail) r1"
    using reaches_wmatch [OF anchor_free_ingredient_tail, of b1 r1 c1 b' r'] by auto
  with amt m1 show ?thesis
    by (auto simp: wmatch_amount_re)
qed

lemma wmatch_ingredient_tail:
  "wmatch (seqs ingredient_tail) t \<longleftrightarrow>
     (\<exists>ws1 un ws2 nm. t = ws1 @ un @ ws2 @ nm
        \<and> (\<forall>c\<in>set ws1. isSpace c) \<and> (\<forall>c\<in>set un. isAlpha c)
        \<and> ws2 \<noteq> [] \<and> (\<forall>c\<in>set ws2. isSpace c)
        \<and> nm \<noteq> [] \<and> (\<forall>c\<in>set nm. \<not> isLineTerminator c))"
proof -
  have "wmatch (seqs ingredient_tail) t
    \<longleftrightarrow> (\<exists>ws1 v2. t = ws1 @ v2 \<and> (\<forall>c\<in>set ws1. isSpace c)
            \<and> (\<exists>un v3. v2 = un @ v3 \<and> (\<forall>c\<in>set un. isAlpha c)
              \<and> (\<exists>ws2 nm. v3 = ws2 @ nm \<and> (ws2 \<noteq> [] \<and> (\<forall>c\<in>set ws2. isSpace c))
                  \<and> nm \<noteq> [] \<and> (\<forall>c\<in>set nm. \<not> isLineTerminator c))))"
    unfolding ingredient_tail_def
    by (simp only: wmatch_seqs_Cons wmatch_seqs_Nil wmatch_spaces0 wmatch_spaces1
          wmatch_unit wmatch_name) simp
  also have "\<dots> \<longleftrightarrow> (\<exists>ws1 un ws2 nm. t = ws1 @ un @ ws2 @ nm
        \<and> (\<forall>c\<in>set ws1. isSpace c) \<and> (\<forall>c\<in>set un. isAlpha c)
        \<and> ws2 \<noteq> [] \<and> (\<forall>c\<in>set ws2. isSpace c)
        \<and> nm \<noteq> [] \<and> (\<forall>c\<in>set nm. \<not> isLineTerminator c))"
    by blast
  finally show ?thesis .
qed

lemma not_amount_char: "isSpace c \<or> isAlpha c \<Longrightarrow> \<not> amount_char c"
  by (auto simp: amount_char_def isSpace_def isAlpha_def isDigit_def isLineTerminator_def)

lemma ingredient_tail_head:
  assumes "wmatch (seqs ingredient_tail) t"
  shows "t \<noteq> [] \<and> \<not> amount_char (hd t)"
proof -
  from assms obtain ws1 un ws2 nm where t: "t = ws1 @ un @ ws2 @ nm"
      and ws1: "\<forall>c\<in>set ws1. isSpace c" and un: "\<forall>c\<in>set un. isAlpha c"
      and ws2: "ws2 \<noteq> []" "\<forall>c\<in>set ws2. isSpace c"
    unfolding wmatch_ingredient_tail by blast
  have ne: "t \<noteq> []" using t ws2(1) by simp
  have "isSpace (hd t) \<or> isAlpha (hd t)"
  proof (cases ws1)
    case (Cons x xs)
    then show ?thesis using t ws1 by simp
  next
    case Nil
    show ?thesis
    proof (cases un)
      case (Cons y ys)
      then show ?thesis using t Nil un by simp
    next
      case Nil
      obtain z zs where "ws2 = z # zs" using ws2(1) by (cases ws2) auto
      then show ?thesis using t \<open>ws1 = []\<close> Nil ws2(2) by simp
    qed
  qed
  with ne show ?thesis using not_amount_char by blast
qed

lemma amount_text_chars: "amount_text x \<Longrightarrow> \<forall>c\<in>set x. amount_char c"
  by (auto simp: amount_text_def digits1_def amount_char_def)

lemma amount_unique:
  assumes "amount_text x" and "amount_text y" and "x @ u = y @ v"
    and "u \<noteq> [] \<and> \<not> amount_char (hd u)" and "v \<noteq> [] \<and> \<not> amount_char (hd v)"
  shows "x = y"
proof -
  have "takeWhile amount_char (x @ u) = x"
    using amount_text_chars [OF assms(1)] assms(4) by (intro takeWhile_run) auto
  moreover have "takeWhile amount_char (y @ v) = y"
    using amount_text_chars [OF assms(2)] assms(5) by (intro takeWhile_run) auto
  ultimately show ?thesis using assms(3) by simp
qed

lemma parseIngredient_amount:
  assumes "amount_text amt" and "wmatch (seqs ingredient_tail) rest"
  shows "amount (parseIngredient (amt @ rest)) = parseFraction amt"
proof -
  have "wmatch (seqs ingredient_body) (amt @ rest)"
    unfolding ingredient_body_split wmatch_seqs_Cons
    using assms by (auto simp: wmatch_amount_re)
  then have "ingredient_line (amt @ rest)" by (simp only: wmatch_ingredient_body)
  then obtain m where m: "re_match ingredient_re (amt @ rest) = Some m"
    using ingredient_re_matches_iff [of "amt @ rest"] by auto
  from ingredient_re_group1 [OF m] obtain amt' rest' where 1: "amt @ rest = amt' @ rest'"
      "amount_text amt'" "wmatch (seqs ingredient_tail) rest'" "m 1 = Some amt'"
    by blast
  have "amt = amt'"
    using assms(1) 1(2) 1(1) ingredient_tail_head [OF assms(2)] ingredient_tail_head [OF 1(3)]
    by (rule amount_unique)
  with m 1(4) show ?thesis
    by (simp add: parseIngredient_def grp_def)
qed

lemma mem_plain:
  assumes "anchor_free p" and "groups p = {}"
  shows "(b', r', c') \<in> set (ms p (b, r, c))
     \<longleftrightarrow> (\<exists>w. r = w @ r' \<and> b' = rev w @ b \<and> wmatch p w) \<and> c' = c"
proof
  assume m: "(b', r', c') \<in> set (ms p (b, r, c))"
  then have "reaches p (b, r, c) b' r'" unfolding reaches_def by blast
  then have 1: "\<exists>w. r = w @ r' \<and> b' = rev w @ b \<and> wmatch p w"
    using reaches_wmatch [OF assms(1)] by blast
  from ms_captures [OF m] assms(2) have "c' = c" by auto
  with 1 show "(\<exists>w. r = w @ r' \<and> b' = rev w @ b \<and> wmatch p w) \<and> c' = c" by blast
next
  assume h: "(\<exists>w. r = w @ r' \<and> b' = rev w @ b \<and> wmatch p w) \<and> c' = c"
  then have "reaches p (b, r, c) b' r'" using reaches_wmatch [OF assms(1)] by blast
  then obtain c'' where m: "(b', r', c'') \<in> set (ms p (b, r, c))" unfolding reaches_def by blast
  from ms_captures [OF m] assms(2) have "c'' = c" by auto
  with m h show "(b', r', c') \<in> set (ms p (b, r, c))" by simp
qed

lemma mem_Grp:
  assumes "anchor_free p" and "groups p = {}"
  shows "(b', r', c') \<in> set (ms (Grp g p) (b, r, c))
     \<longleftrightarrow> (\<exists>w. r = w @ r' \<and> b' = rev w @ b \<and> wmatch p w \<and> c' = (g, w) # c)"
proof -
  have "(b', r', c') \<in> set (ms (Grp g p) (b, r, c))
     \<longleftrightarrow> (\<exists>c0. (b', r', c0) \<in> set (ms p (b, r, c)) \<and> c' = (g, take (length r - length r') r) # c0)"
    by force
  also have "\<dots> \<longleftrightarrow> (\<exists>w. r = w @ r' \<and> b' = rev w @ b \<and> wmatch p w \<and> c' = (g, w) # c)"
    unfolding mem_plain [OF assms] by auto
  finally show ?thesis .
qed

lemma mem_Opt:
  "(b', r', c') \<in> set (ms (Opt p) (b, r, c))
     \<longleftrightarrow> ((b', r', c') \<in> set (ms p (b, r, c)) \<and> length r' \<noteq> length r) \<or> (b', r', c') = (b, r, c)"
  by auto

lemma mem_seqs_Cons:
  "(b', r', c') \<in> set (ms (seqs (p # ps)) s)
     \<longleftrightarrow> (\<exists>b2 r2 c2. (b2, r2, c2) \<in> set (ms p s) \<and> (b', r', c') \<in> set (ms (seqs ps) (b2, r2, c2)))"
  by (auto simp: seqs_def)

lemma wmatch_letters1: "wmatch (Rep Alpha 1 None) w \<longleftrightarrow> w \<noteq> [] \<and> (\<forall>c\<in>set w. isAlpha c)"
  by (cases w) auto

lemma wmatch_anychars1: "wmatch (Rep AnyChar 1 None) w \<longleftrightarrow> w \<noteq> [] \<and> (\<forall>c\<in>set w. \<not> isLineTerminator c)"
  by (cases w) auto

text \<open>An outcome of the tail of the pattern splits the rest of the line and records the unit and the name.\<close>

lemma ingredient_tail_outcome:
  assumes "(b', r', c') \<in> set (ms (seqs (ingredient_tail @ [Eol])) (b1, r1, c1))"
  shows "\<exists>ws1 un ws2 nm. r1 = ws1 @ un @ ws2 @ nm
           \<and> (\<forall>c\<in>set ws1. isSpace c) \<and> (\<forall>c\<in>set un. isAlpha c)
           \<and> ws2 \<noteq> [] \<and> (\<forall>c\<in>set ws2. isSpace c)
           \<and> nm \<noteq> [] \<and> (\<forall>c\<in>set nm. \<not> isLineTerminator c)
           \<and> c' = (3, nm) # (if un = [] then [] else [(2, un)]) @ c1"
proof -
  have tl: "ingredient_tail @ [Eol]
      = [Rep Space 0 None, Opt (Grp 2 (Rep Alpha 1 None)), Rep Space 1 None,
         Grp 3 (Rep AnyChar 1 None), Eol]"
    by (simp add: ingredient_tail_def)
  from assms obtain b2 r2 c2 where 1: "(b2, r2, c2) \<in> set (ms (Rep Space 0 None) (b1, r1, c1))"
      and q1: "(b', r', c') \<in> set (ms (seqs [Opt (Grp 2 (Rep Alpha 1 None)), Rep Space 1 None,
                   Grp 3 (Rep AnyChar 1 None), Eol]) (b2, r2, c2))"
    unfolding tl mem_seqs_Cons [of b' r' c' "Rep Space 0 None"] by blast
  from q1 obtain b3 r3 c3 where 2: "(b3, r3, c3) \<in> set (ms (Opt (Grp 2 (Rep Alpha 1 None))) (b2, r2, c2))"
      and q2: "(b', r', c') \<in> set (ms (seqs [Rep Space 1 None, Grp 3 (Rep AnyChar 1 None), Eol]) (b3, r3, c3))"
    unfolding mem_seqs_Cons [of b' r' c' "Opt (Grp 2 (Rep Alpha 1 None))"] by blast
  from q2 obtain b4 r4 c4 where 3: "(b4, r4, c4) \<in> set (ms (Rep Space 1 None) (b3, r3, c3))"
      and q3: "(b', r', c') \<in> set (ms (seqs [Grp 3 (Rep AnyChar 1 None), Eol]) (b4, r4, c4))"
    unfolding mem_seqs_Cons [of b' r' c' "Rep Space 1 None"] by blast
  from q3 obtain b5 r5 c5 where 4: "(b5, r5, c5) \<in> set (ms (Grp 3 (Rep AnyChar 1 None)) (b4, r4, c4))"
      and q4: "(b', r', c') \<in> set (ms (seqs [Eol]) (b5, r5, c5))"
    unfolding mem_seqs_Cons [of b' r' c' "Grp 3 (Rep AnyChar 1 None)"] by blast
  from q4 have 5: "r5 = []" "c' = c5"
    by (auto simp: seqs_def split: if_splits)
  have plain: "anchor_free (Rep k mn mx)" "groups (Rep k mn mx) = {}" for k mn mx
    by simp_all
  from mem_plain [OF plain, THEN iffD1, OF 1]
  obtain ws1 where ws1: "r1 = ws1 @ r2" "\<forall>c\<in>set ws1. isSpace c" "c2 = c1"
    by auto
  from 2 have "\<exists>un. r2 = un @ r3 \<and> (\<forall>c\<in>set un. isAlpha c)
      \<and> c3 = (if un = [] then [] else [(2, un)]) @ c2"
    unfolding mem_Opt
  proof
    assume "(b3, r3, c3) \<in> set (ms (Grp 2 (Rep Alpha 1 None)) (b2, r2, c2)) \<and> length r3 \<noteq> length r2"
    then have "(b3, r3, c3) \<in> set (ms (Grp 2 (Rep Alpha 1 None)) (b2, r2, c2))" by blast
    from mem_Grp [OF plain, THEN iffD1, OF this]
    obtain w where "r2 = w @ r3" "wmatch (Rep Alpha 1 None) w" "c3 = (2, w) # c2"
      by blast
    then have "r2 = w @ r3 \<and> (\<forall>c\<in>set w. isAlpha c) \<and> c3 = (if w = [] then [] else [(2, w)]) @ c2"
      unfolding wmatch_letters1 by simp
    then show ?thesis by blast
  next
    assume "(b3, r3, c3) = (b2, r2, c2)"
    then have "r2 = [] @ r3 \<and> (\<forall>c\<in>set []. isAlpha c) \<and> c3 = (if [] = ([] :: jsstring) then [] else [(2, [])]) @ c2"
      by simp
    then show ?thesis by blast
  qed
  then obtain un where un: "r2 = un @ r3" "\<forall>c\<in>set un. isAlpha c"
      "c3 = (if un = [] then [] else [(2, un)]) @ c2"
    by blast
  from mem_plain [OF plain, THEN iffD1, OF 3]
  obtain ws2 where ws2: "r3 = ws2 @ r4" "ws2 \<noteq> []" "\<forall>c\<in>set ws2. isSpace c" "c4 = c3"
    unfolding wmatch_spaces1 by auto
  from mem_Grp [OF plain, THEN iffD1, OF 4]
  obtain nm where nm: "r4 = nm @ r5" "wmatch (Rep AnyChar 1 None) nm" "c5 = (3, nm) # c4"
    by blast
  from nm(2) have nm2: "nm \<noteq> []" "\<forall>c\<in>set nm. \<not> isLineTerminator c"
    unfolding wmatch_anychars1 by simp_all
  have "r1 = ws1 @ un @ ws2 @ nm" using ws1(1) un(1) ws2(1) nm(1) 5(1) by simp
  moreover have "c' = (3, nm) # (if un = [] then [] else [(2, un)]) @ c1"
    using 5(2) nm(3) ws2(4) un(3) ws1(3) by simp
  ultimately show ?thesis using ws1(2) un(2) ws2(2,3) nm2 by blast
qed

text \<open>
  What a match of the pattern gives: the line splits into an amount, white space, a unit
  or none, white space and a name, and the groups hold the amount, the unit (when it is
  not empty) and the name.
\<close>

lemma ingredient_re_outcome:
  assumes "re_match ingredient_re line = Some m"
  shows "\<exists>amt ws1 un ws2 nm. line = amt @ ws1 @ un @ ws2 @ nm
           \<and> amount_text amt
           \<and> (\<forall>c\<in>set ws1. isSpace c) \<and> (\<forall>c\<in>set un. isAlpha c)
           \<and> ws2 \<noteq> [] \<and> (\<forall>c\<in>set ws2. isSpace c)
           \<and> nm \<noteq> [] \<and> (\<forall>c\<in>set nm. \<not> isLineTerminator c)
           \<and> m 1 = Some amt \<and> m 2 = (if un = [] then None else Some un) \<and> m 3 = Some nm"
proof -
  from assms obtain b' r' c' where s: "re_search ingredient_re [] line = Some (b', r', c')"
      and m: "m = map_of c'"
    by (auto simp: re_match_def)
  from re_search_Some_mem [OF s] obtain pre post where line: "line = pre @ post"
      and mem: "(b', r', c') \<in> set (ms ingredient_re (rev pre @ [], post, []))"
    by blast
  have re: "ingredient_re = seqs (Bol # Grp 1 amount_re # ingredient_tail @ [Eol])"
    by (simp add: ingredient_re_anchored ingredient_body_split)
  from mem have pre: "pre = []"
    unfolding re by (simp add: ms_seqs_Bol split: if_splits)
  with mem line have "(b', r', c') \<in> set (ms (seqs (Grp 1 amount_re # ingredient_tail @ [Eol])) ([], line, []))"
    unfolding re by (simp add: ms_seqs_Bol)
  then obtain b1 r1 c1 where g: "(b1, r1, c1) \<in> set (ms (Grp 1 amount_re) ([], line, []))"
      and t: "(b', r', c') \<in> set (ms (seqs (ingredient_tail @ [Eol])) (b1, r1, c1))"
    unfolding mem_seqs_Cons [of b' r' c' "Grp 1 amount_re"] by blast
  have ga: "groups amount_re = {}" by (simp add: amount_re_def seqs_def)
  from g obtain amt where amt: "line = amt @ r1" "wmatch amount_re amt" "c1 = [(1, amt)]"
    unfolding mem_Grp [OF anchor_free_amount_re ga] by blast
  from ingredient_tail_outcome [OF t] obtain ws1 un ws2 nm where parts: "r1 = ws1 @ un @ ws2 @ nm"
      "\<forall>c\<in>set ws1. isSpace c" "\<forall>c\<in>set un. isAlpha c" "ws2 \<noteq> []" "\<forall>c\<in>set ws2. isSpace c"
      "nm \<noteq> []" "\<forall>c\<in>set nm. \<not> isLineTerminator c"
      and c': "c' = (3, nm) # (if un = [] then [] else [(2, un)]) @ c1"
    by blast
  have "m 1 = Some amt \<and> m 2 = (if un = [] then None else Some un) \<and> m 3 = Some nm"
    unfolding m c' amt(3) by simp
  moreover have "line = amt @ ws1 @ un @ ws2 @ nm" using amt(1) parts(1) by simp
  moreover have "amount_text amt" using amt(2) by (simp only: wmatch_amount_re)
  ultimately show ?thesis using parts(2-7) by blast
qed

lemma leads_opt_sep_digits:
  assumes "x = [] \<or> (\<exists>d. x = sep # d \<and> digits1 d)" and "t \<noteq> []" and "hd t \<noteq> sep"
    and "\<not> isDigit (hd t)"
  shows "leads (Opt (seqs [Chr (One sep), Rep Digit 1 None])) (b, x @ t, c) (rev x @ b, t, c)"
proof (cases "x = []")
  case True
  obtain y ys where t: "t = y # ys" using assms(2) by (cases t) auto
  have "ms (seqs [Chr (One sep), Rep Digit 1 None]) (b, t, c) = []"
    using assms(3) t by (simp add: seqs_def)
  then have "leads (Opt (seqs [Chr (One sep), Rep Digit 1 None])) (b, t, c) (b, t, c)"
    by (rule leads_Opt_skip)
  then show ?thesis using True by simp
next
  case False
  then obtain d where x: "x = sep # d" and d: "digits1 d" using assms(1) by blast
  have a: "leads (Chr (One sep)) (b, sep # (d @ t), c) (sep # b, d @ t, c)"
    by (intro leads_Chr) simp
  have r: "leads (Rep Digit 1 None) (sep # b, d @ t, c) (rev d @ sep # b, t, c)"
    using d assms(4) by (intro leads_Rep) (auto simp: digits1_def Suc_le_eq)
  have "leads (Opt (seqs [Chr (One sep), Rep Digit 1 None])) (b, sep # (d @ t), c)
          (rev d @ sep # b, t, c)"
    by (intro leads_Opt_take leads_seqs_Cons [OF a] leads_seqs_Cons [OF r] leads_seqs_Nil) simp
  then show ?thesis by (simp add: x)
qed

text \<open>The first outcome of the amount group takes the whole amount, when what follows cannot continue it.\<close>

lemma leads_amount:
  assumes "amount_text amt" and "t \<noteq> []" and "\<not> amount_char (hd t)"
  shows "leads (Grp 1 amount_re) ([], amt @ t, c) (rev amt, t, (1, amt) # c)"
proof -
  from assms(1) obtain d f e where amt: "amt = d @ f @ e" and d: "digits1 d"
      and f: "f = [] \<or> (\<exists>d2. f = 47 # d2 \<and> digits1 d2)"
      and e: "e = [] \<or> (\<exists>d3. e = 46 # d3 \<and> digits1 d3)"
    unfolding amount_text_def by blast
  have t: "hd t \<noteq> 47" "hd t \<noteq> 46" "\<not> isDigit (hd t)"
    using assms(3) by (auto simp: amount_char_def)
  have et: "e @ t \<noteq> []" "hd (e @ t) \<noteq> 47" "\<not> isDigit (hd (e @ t))"
    using e t assms(2) by (auto simp: isDigit_def)
  have fet: "f @ e @ t = [] \<or> \<not> isDigit (hd (f @ e @ t))"
    using f et by (auto simp: isDigit_def)
  have A: "leads (Rep Digit 1 None) ([], d @ (f @ e @ t), c) (rev d @ [], f @ e @ t, c)"
    using d fet by (intro leads_Rep) (auto simp: digits1_def Suc_le_eq)
  have B: "leads (Opt (seqs [Chr (One 47), Rep Digit 1 None])) (rev d, f @ (e @ t), c)
             (rev f @ rev d, e @ t, c)"
    using f et by (intro leads_opt_sep_digits) auto
  have C: "leads (Opt (seqs [Chr (One 46), Rep Digit 1 None])) (rev f @ rev d, e @ t, c)
             (rev e @ rev f @ rev d, t, c)"
    using e t assms(2) by (intro leads_opt_sep_digits) auto
  have "leads amount_re ([], d @ (f @ e @ t), c) (rev e @ rev f @ rev d, t, c)"
    unfolding amount_re_def
    apply (rule leads_seqs_Cons [where s' = "(rev d, f @ e @ t, c)"])
    subgoal using A by simp
    apply (rule leads_seqs_Cons [OF B])
    apply (rule leads_seqs_Cons [OF C])
    apply (rule leads_seqs_Nil)
    done
  then have "leads amount_re ([], amt @ t, c) (rev amt, t, c)"
    by (simp add: amt)
  from leads_Grp [OF this, of 1] show ?thesis by simp
qed

text \<open>The first outcome of the tail on a space, a unit of letters, a space and a name.\<close>

lemma leads_unit_tail:
  assumes u: "u \<noteq> []" "\<forall>c\<in>set u. isAlpha c"
    and n: "n \<noteq> []" "\<not> isSpace (hd n)" "\<forall>c\<in>set n. \<not> isLineTerminator c"
  shows "leads (seqs (ingredient_tail @ [Eol])) (b, 32 # u @ 32 # n, c)
           (rev n @ 32 # rev u @ 32 # b, [], (3, n) # (2, u) # c)"
proof -
  define t4 where "t4 = 32 # n"
  define t3 where "t3 = u @ t4"
  define c2 where "c2 = (2 :: nat, u) # c"
  have hu: "isAlpha (hd u)" using u by (cases u) auto
  have na32: "\<not> isAlpha 32" and sp32: "isSpace 32"
    by (simp_all add: isAlpha_def isSpace_def)
  have nsu: "\<not> isSpace (hd u)"
    using hu by (auto simp: isAlpha_def isSpace_def isLineTerminator_def)
  have L4: "leads (Rep Space 0 None) (b, [32] @ t3, c) (rev [32] @ b, t3, c)"
    using sp32 nsu u(1) by (intro leads_Rep) (auto simp: t3_def)
  have L5a: "leads (Rep Alpha 1 None) (32 # b, u @ t4, c) (rev u @ 32 # b, t4, c)"
    using u na32 by (intro leads_Rep) (auto simp: t4_def Suc_le_eq)
  have L5: "leads (Opt (Grp 2 (Rep Alpha 1 None))) (32 # b, u @ t4, c) (rev u @ 32 # b, t4, c2)"
    using leads_Grp [OF L5a, of 2] u(1) by (intro leads_Opt_take) (simp_all add: c2_def)
  have L6: "leads (Rep Space 1 None) (rev u @ 32 # b, [32] @ n, c2) (rev [32] @ rev u @ 32 # b, n, c2)"
    using sp32 n(2) by (intro leads_Rep) auto
  have L7a: "leads (Rep AnyChar 1 None) (32 # rev u @ 32 # b, n @ [], c2)
              (rev n @ 32 # rev u @ 32 # b, [], c2)"
    using n by (intro leads_Rep) (auto simp: Suc_le_eq)
  have L7: "leads (Grp 3 (Rep AnyChar 1 None)) (32 # rev u @ 32 # b, n, c2)
              (rev n @ 32 # rev u @ 32 # b, [], (3, n) # c2)"
    using leads_Grp [OF L7a, of 3] by simp
  have "leads (seqs (ingredient_tail @ [Eol])) (b, 32 # t3, c)
          (rev n @ 32 # rev u @ 32 # b, [], (3, n) # c2)"
    unfolding ingredient_tail_def append.simps
    apply (rule leads_seqs_Cons [where s' = "(32 # b, t3, c)"])
    subgoal using L4 by simp
    apply (rule leads_seqs_Cons [where s' = "(rev u @ 32 # b, t4, c2)"])
    subgoal using L5 by (simp add: t3_def)
    apply (rule leads_seqs_Cons [where s' = "(32 # rev u @ 32 # b, n, c2)"])
    subgoal using L6 by (simp add: t4_def)
    apply (rule leads_seqs_Cons [OF L7])
    apply (rule leads_seqs_Cons [OF leads_Eol])
    apply (rule leads_seqs_Nil)
    done
  then show ?thesis by (simp add: t3_def t4_def c2_def)
qed

lemma ingredient_re_unit_line:
  assumes "amount_text amt"
    and u: "u \<noteq> []" "\<forall>c\<in>set u. isAlpha c"
    and n: "n \<noteq> []" "\<not> isSpace (hd n)" "\<forall>c\<in>set n. \<not> isLineTerminator c"
  shows "\<exists>bf. re_search ingredient_re [] (amt @ 32 # u @ 32 # n)
           = Some (bf, [], [(3, n), (2, u), (1, amt)])"
proof -
  have re: "ingredient_re = seqs (Bol # Grp 1 amount_re # ingredient_tail @ [Eol])"
    by (simp add: ingredient_re_anchored ingredient_body_split)
  have "\<not> amount_char 32" by (simp add: amount_char_def isDigit_def)
  then have G1: "leads (Grp 1 amount_re) ([], amt @ 32 # u @ 32 # n, []) (rev amt, 32 # u @ 32 # n, [(1, amt)])"
    using assms(1) by (intro leads_amount) simp_all
  have "leads ingredient_re ([], amt @ 32 # u @ 32 # n, [])
          (rev n @ 32 # rev u @ 32 # rev amt, [], [(3, n), (2, u), (1, amt)])"
    unfolding re
    by (intro leads_seqs_Cons [OF leads_Bol] leads_seqs_Cons [OF G1] leads_unit_tail [OF u n])
  from re_search_leads [OF this] show ?thesis by blast
qed

lemma parseIngredient_unit_line:
  assumes "amount_text amt"
    and "u \<noteq> []" "\<forall>c\<in>set u. isAlpha c"
    and "n \<noteq> []" "\<not> isSpace (hd n)" "\<forall>c\<in>set n. \<not> isLineTerminator c"
  shows "parseIngredient (amt @ js '' '' @ u @ js '' '' @ n)
     = \<lparr>name = trim n, amount = parseFraction amt, unit = Some u\<rparr>"
proof -
  have line: "amt @ js '' '' @ u @ js '' '' @ n = amt @ 32 # u @ 32 # n"
    by (simp add: js_def)
  obtain bf where "re_search ingredient_re [] (amt @ 32 # u @ 32 # n)
           = Some (bf, [], [(3, n), (2, u), (1, amt)])"
    using ingredient_re_unit_line [OF assms] by blast
  then have m: "re_match ingredient_re (amt @ 32 # u @ 32 # n)
      = Some (map_of [(3, n), (2, u), (1, amt)])"
    by (simp add: re_match_def)
  show ?thesis
    unfolding line by (simp add: parseIngredient_def m grp_def)
qed

text \<open>The result on every line of the shape, by the parts of the match.\<close>

lemma parseIngredient_parts:
  assumes "ingredient_line line"
  shows "\<exists>amt ws1 un ws2 nm. line = amt @ ws1 @ un @ ws2 @ nm
           \<and> amount_text amt
           \<and> (\<forall>c\<in>set ws1. isSpace c) \<and> (\<forall>c\<in>set un. isAlpha c)
           \<and> ws2 \<noteq> [] \<and> (\<forall>c\<in>set ws2. isSpace c)
           \<and> nm \<noteq> [] \<and> (\<forall>c\<in>set nm. \<not> isLineTerminator c)
           \<and> parseIngredient line
               = \<lparr>name = trim nm, amount = parseFraction amt,
                  unit = (if un = [] then None else Some un)\<rparr>"
proof -
  from assms obtain m where m: "re_match ingredient_re line = Some m"
    using ingredient_re_matches_iff [of line] by auto
  from ingredient_re_outcome [OF m] obtain amt ws1 un ws2 nm where
      parts: "line = amt @ ws1 @ un @ ws2 @ nm" "amount_text amt"
        "\<forall>c\<in>set ws1. isSpace c" "\<forall>c\<in>set un. isAlpha c" "ws2 \<noteq> []" "\<forall>c\<in>set ws2. isSpace c"
        "nm \<noteq> []" "\<forall>c\<in>set nm. \<not> isLineTerminator c"
      and g: "m 1 = Some amt" "m 2 = (if un = [] then None else Some un)" "m 3 = Some nm"
    by blast
  have g1: "m (Suc 0) = Some amt" using g(1) by simp
  have "parseIngredient line
      = \<lparr>name = trim nm, amount = parseFraction amt, unit = (if un = [] then None else Some un)\<rparr>"
    by (simp add: parseIngredient_def m grp_def g g1)
  with parts show ?thesis by blast
qed

lemma trim_word:
  assumes "\<forall>c\<in>set s. isSpace c" and "w \<noteq> []" and "\<forall>c\<in>set w. \<not> isSpace c"
  shows "trim (s @ w) = w"
proof -
  have h: "\<not> isSpace (hd w)" using assms(2,3) by (cases w) auto
  have l: "\<not> isSpace (hd (rev w))" using assms(2,3) by (simp add: hd_rev)
  have 1: "dropWhile isSpace (s @ w) = w"
    using assms(1,2) h by (cases w) (simp_all add: dropWhile_append)
  have 2: "dropWhile isSpace (rev w) = rev w"
    using assms(2) l by (cases "rev w") simp_all
  show ?thesis by (simp add: trim_def 1 2)
qed

text \<open>A line of an amount, white space and one word without white space: the word is the name, there is no unit.\<close>

lemma parseIngredient_no_unit:
  assumes amt: "amount_text amt"
    and ws: "ws \<noteq> []" "\<forall>c\<in>set ws. isSpace c"
    and w: "w \<noteq> []" "\<forall>c\<in>set w. \<not> isSpace c"
  shows "parseIngredient (amt @ ws @ w) = \<lparr>name = w, amount = parseFraction amt, unit = None\<rparr>"
proof -
  have wlt: "\<forall>c\<in>set w. \<not> isLineTerminator c" using w(2) by (auto simp: isSpace_def)
  have tail: "wmatch (seqs ingredient_tail) (ws @ w)"
    unfolding wmatch_ingredient_tail
    using ws w(1) wlt by (intro exI [of _ "[]"] exI [of _ ws] exI [of _ w]) simp
  have "wmatch (seqs ingredient_body) (amt @ ws @ w)"
    unfolding ingredient_body_split wmatch_seqs_Cons
    using amt tail by (auto simp: wmatch_amount_re)
  then have "ingredient_line (amt @ ws @ w)" by (simp only: wmatch_ingredient_body)
  from parseIngredient_parts [OF this] obtain amt' ws1 un ws2 nm where
      parts: "amt @ ws @ w = amt' @ ws1 @ un @ ws2 @ nm" "amount_text amt'"
        "\<forall>c\<in>set ws1. isSpace c" "\<forall>c\<in>set un. isAlpha c" "ws2 \<noteq> []" "\<forall>c\<in>set ws2. isSpace c"
        "nm \<noteq> []" "\<forall>c\<in>set nm. \<not> isLineTerminator c"
      and res: "parseIngredient (amt @ ws @ w)
               = \<lparr>name = trim nm, amount = parseFraction amt',
                  unit = (if un = [] then None else Some un)\<rparr>"
    by blast
  have tail': "wmatch (seqs ingredient_tail) (ws1 @ un @ ws2 @ nm)"
    unfolding wmatch_ingredient_tail using parts(3-8) by blast
  have eq: "amt = amt'"
    using amt parts(2) parts(1) ingredient_tail_head [OF tail] ingredient_tail_head [OF tail']
    by (rule amount_unique)
  with parts(1) have rest: "ws @ w = ws1 @ un @ ws2 @ nm" by simp
  have hw: "\<not> isSpace (hd w)" using w by (cases w) auto
  have run: "takeWhile isSpace (ws @ w) = ws"
    using ws(2) hw by (intro takeWhile_run) auto
  have un: "un = []"
  proof (rule ccontr)
    assume ne: "un \<noteq> []"
    then have "isAlpha (hd un)" using parts(4) by (cases un) auto
    then have "\<not> isSpace (hd (un @ ws2 @ nm))"
      using ne by (auto simp: isAlpha_def isSpace_def isLineTerminator_def)
    then have "takeWhile isSpace (ws1 @ (un @ ws2 @ nm)) = ws1"
      using parts(3) by (intro takeWhile_run) auto
    with run rest have "ws = ws1" by simp
    with rest have "w = un @ ws2 @ nm" by simp
    moreover have "isSpace (hd ws2)" using parts(5,6) by (cases ws2) auto
    moreover have "hd ws2 \<in> set ws2" using parts(5) by simp
    ultimately show False using w(2) by auto
  qed
  with rest have "ws @ w = (ws1 @ ws2) @ nm" by simp
  then obtain us where "(ws = (ws1 @ ws2) @ us \<and> us @ w = nm) \<or> (ws @ us = ws1 @ ws2 \<and> w = us @ nm)"
    unfolding append_eq_append_conv2 by blast
  then have "\<exists>s. nm = s @ w \<and> (\<forall>c\<in>set s. isSpace c)"
  proof
    assume h: "ws = (ws1 @ ws2) @ us \<and> us @ w = nm"
    then have "\<forall>c\<in>set us. isSpace c" using ws(2) by auto
    with h show ?thesis by blast
  next
    assume h: "ws @ us = ws1 @ ws2 \<and> w = us @ nm"
    have "us = []"
    proof (rule ccontr)
      assume "us \<noteq> []"
      then have "hd us \<in> set us" by simp
      then have "hd us \<in> set (ws1 @ ws2)" "hd us \<in> set w"
        using h by (metis Un_iff set_append)+
      then show False using parts(3,6) w(2) by auto
    qed
    with h have "nm = [] @ w \<and> (\<forall>c\<in>set []. isSpace c)" by simp
    then show ?thesis by blast
  qed
  then obtain s where "nm = s @ w" "\<forall>c\<in>set s. isSpace c" by blast
  then have "trim nm = w" using trim_word [OF _ w] by simp
  with res eq un show ?thesis by simp
qed

lemma parseIngredient_amount_parts:
  assumes "amount_text amt" and "\<forall>c\<in>set ws1. isSpace c" and "\<forall>c\<in>set un. isAlpha c"
    and "ws2 \<noteq> []" and "\<forall>c\<in>set ws2. isSpace c" and "nm \<noteq> []" and "\<forall>c\<in>set nm. \<not> isLineTerminator c"
  shows "amount (parseIngredient (amt @ ws1 @ un @ ws2 @ nm)) = parseFraction amt"
proof -
  have "wmatch (seqs ingredient_tail) (ws1 @ un @ ws2 @ nm)"
    unfolding wmatch_ingredient_tail using assms(2-7) by blast
  with assms(1) show ?thesis by (rule parseIngredient_amount)
qed

text \<open>Natural numbers below \<open>2 ^ 53\<close> are doubles.\<close>

lemma expo_ge1_nonneg: "0 \<le> expo_ge1 k q"
proof (induction k q rule: expo_ge1.induct)
  case (1 k q)
  show ?case
  proof (cases "k = 0 \<or> q < 2")
    case True
    then show ?thesis by (subst expo_ge1.simps) simp
  next
    case False
    from 1 [OF False] show ?thesis using False by (subst expo_ge1.simps) simp
  qed
qed

lemma expo_ge1_le: "q < 2 ^ Suc m \<Longrightarrow> expo_ge1 k q \<le> int m"
proof (induction k q arbitrary: m rule: expo_ge1.induct)
  case (1 k q)
  show ?case
  proof (cases "k = 0 \<or> q < 2")
    case True
    then show ?thesis by (subst expo_ge1.simps) simp
  next
    case False
    then obtain m' where m: "m = Suc m'" using "1.prems" by (cases m) auto
    have "q / 2 < 2 ^ Suc m'" using "1.prems" m by simp
    from "1.IH" [OF False this] have "expo_ge1 (k - 1) (q / 2) \<le> int m'" .
    then show ?thesis using False m by (subst expo_ge1.simps) simp
  qed
qed

lemma round_even_of_int: "round_even (of_int z) = z"
  by (simp add: round_even_def)

lemma to_double_of_nat:
  assumes "n < 2 ^ 53"
  shows "to_double (of_nat n) = Num (of_nat n)"
proof (cases "n = 0")
  case True
  then show ?thesis by (simp add: to_double_def)
next
  case False
  define q :: rat where "q = of_nat n"
  have q1: "1 \<le> q" using False by (simp add: q_def Suc_le_eq)
  have "q < of_nat (2 ^ 53)" unfolding q_def using assms by (simp only: of_nat_less_iff)
  then have q53: "q < 2 ^ Suc 52" by simp
  define e where "e = expo_ge1 1024 q"
  have e: "0 \<le> e" "e \<le> 52"
    using expo_ge1_nonneg [of 1024 q] expo_ge1_le [OF q53, of 1024] by (simp_all add: e_def)
  define j where "j = nat (52 - e)"
  have ulp: "pow2 (e - 52) = 1 / 2 ^ j"
    using e by (auto simp: pow2_def j_def)
  have "q / (1 / 2 ^ j) = of_int (int n * 2 ^ j)" by (simp add: q_def)
  then have re: "round_even (q / pow2 (e - 52)) = int n * 2 ^ j"
    unfolding ulp by (simp only: round_even_of_int)
  have v: "of_int (int n * 2 ^ j) * pow2 (e - 52) = q"
    unfolding ulp by (simp add: q_def)
  have "(2 :: rat) ^ 53 \<le> 2 ^ 1024" by (rule power_increasing) simp_all
  with q53 have big: "\<not> 2 ^ 1024 \<le> q" by simp
  have be: "binary_exponent q = e" using q1 by (simp add: binary_exponent_def e_def)
  have "to_double_pos q = Num q"
    unfolding to_double_pos_def Let_def be re v using big by simp
  moreover have "0 < q" using q1 by simp
  ultimately show ?thesis by (simp add: to_double_def q_def)
qed

lemma parseFraction_small:
  assumes "a \<noteq> []" and "\<forall>c\<in>set a. isDigit c" and "b \<noteq> []" and "\<forall>c\<in>set b. isDigit c"
    and "decimal a < 2 ^ 53" and "0 < decimal b" and "decimal b < 2 ^ 53"
  shows "parseFraction (a @ js ''/'' @ b) = to_double (of_nat (decimal a) / of_nat (decimal b))"
proof -
  have a: "to_double (of_nat (decimal a)) = Num (of_nat (decimal a))"
    by (rule to_double_of_nat [OF assms(5)])
  have b: "to_double (of_nat (decimal b)) = Num (of_nat (decimal b))"
    by (rule to_double_of_nat [OF assms(7)])
  show ?thesis
    unfolding parseFraction_simple [OF assms(1-4)] a b using assms(6) by simp
qed

text \<open>
  C8.  The ingredient parser maps "1/2 cup sugar" to the amount 1/2, the unit "cup" and
  the name "sugar".  On every line of the shape \<open><amount> <unit?> <name>\<close> whose amount is
  a fraction a/b of two digit runs, with a unit or without one, the amount of the result
  is the quotient of the doubles of a and b (an infinity or NaN when b is zero or a run
  is too long for a finite double); it is the double nearest to a/b when a and b are
  below \<open>2 ^ 53\<close> and b is not zero.  On every line of the shape the amount is what
  \<open>parseFraction\<close> makes of the amount text.  After an amount, a space, a unit of letters,
  a space and a name that does not start with white space, the result has that unit and
  the trimmed name; after an amount, white space and one word without white space, it
  has no unit and the word as its name; on every line of the shape the result is made
  of the parts of one splitting of the line.  A line that is not of the shape gets the
  name of the whole line, the amount 1 and no unit.
\<close>

theorem parseIngredient_spec:
  "parseIngredient (js ''1/2 cup sugar'')
     = \<lparr>name = js ''sugar'', amount = Num (1 / 2), unit = Some (js ''cup'')\<rparr>
   \<and> (digits1 a \<and> digits1 b
        \<and> (\<forall>c\<in>set ws1. isSpace c) \<and> (\<forall>c\<in>set un. isAlpha c)
        \<and> ws2 \<noteq> [] \<and> (\<forall>c\<in>set ws2. isSpace c)
        \<and> nm \<noteq> [] \<and> (\<forall>c\<in>set nm. \<not> isLineTerminator c)
      \<longrightarrow> amount (parseIngredient ((a @ js ''/'' @ b) @ ws1 @ un @ ws2 @ nm))
            = js_div (to_double (of_nat (decimal a))) (to_double (of_nat (decimal b)))
        \<and> (decimal a < 2 ^ 53 \<and> 0 < decimal b \<and> decimal b < 2 ^ 53
           \<longrightarrow> amount (parseIngredient ((a @ js ''/'' @ b) @ ws1 @ un @ ws2 @ nm))
                 = to_double (of_nat (decimal a) / of_nat (decimal b))))
   \<and> (amount_text amt
        \<and> (\<forall>c\<in>set ws1. isSpace c) \<and> (\<forall>c\<in>set un. isAlpha c)
        \<and> ws2 \<noteq> [] \<and> (\<forall>c\<in>set ws2. isSpace c)
        \<and> nm \<noteq> [] \<and> (\<forall>c\<in>set nm. \<not> isLineTerminator c)
      \<longrightarrow> amount (parseIngredient (amt @ ws1 @ un @ ws2 @ nm)) = parseFraction amt)
   \<and> (amount_text amt \<and> u \<noteq> [] \<and> (\<forall>c\<in>set u. isAlpha c)
        \<and> n \<noteq> [] \<and> \<not> isSpace (hd n) \<and> (\<forall>c\<in>set n. \<not> isLineTerminator c)
      \<longrightarrow> parseIngredient (amt @ js '' '' @ u @ js '' '' @ n)
            = \<lparr>name = trim n, amount = parseFraction amt, unit = Some u\<rparr>)
   \<and> (amount_text amt \<and> ws \<noteq> [] \<and> (\<forall>c\<in>set ws. isSpace c)
        \<and> w \<noteq> [] \<and> (\<forall>c\<in>set w. \<not> isSpace c)
      \<longrightarrow> parseIngredient (amt @ ws @ w)
            = \<lparr>name = w, amount = parseFraction amt, unit = None\<rparr>)
   \<and> (ingredient_line line
      \<longrightarrow> (\<exists>amt ws1 un ws2 nm. line = amt @ ws1 @ un @ ws2 @ nm
             \<and> amount_text amt
             \<and> (\<forall>c\<in>set ws1. isSpace c) \<and> (\<forall>c\<in>set un. isAlpha c)
             \<and> ws2 \<noteq> [] \<and> (\<forall>c\<in>set ws2. isSpace c)
             \<and> nm \<noteq> [] \<and> (\<forall>c\<in>set nm. \<not> isLineTerminator c)
             \<and> parseIngredient line
                 = \<lparr>name = trim nm, amount = parseFraction amt,
                    unit = (if un = [] then None else Some un)\<rparr>))
   \<and> (\<not> ingredient_line line
      \<longrightarrow> parseIngredient line = \<lparr>name = line, amount = Num 1, unit = None\<rparr>)"
proof -
  have fraction: "amount (parseIngredient ((a @ js ''/'' @ b) @ ws1 @ un @ ws2 @ nm))
            = js_div (to_double (of_nat (decimal a))) (to_double (of_nat (decimal b)))
        \<and> (decimal a < 2 ^ 53 \<and> 0 < decimal b \<and> decimal b < 2 ^ 53
           \<longrightarrow> amount (parseIngredient ((a @ js ''/'' @ b) @ ws1 @ un @ ws2 @ nm))
                 = to_double (of_nat (decimal a) / of_nat (decimal b)))"
    if h: "digits1 a \<and> digits1 b
        \<and> (\<forall>c\<in>set ws1. isSpace c) \<and> (\<forall>c\<in>set un. isAlpha c)
        \<and> ws2 \<noteq> [] \<and> (\<forall>c\<in>set ws2. isSpace c)
        \<and> nm \<noteq> [] \<and> (\<forall>c\<in>set nm. \<not> isLineTerminator c)"
  proof -
    from h have a: "a \<noteq> []" "\<forall>c\<in>set a. isDigit c" and b: "b \<noteq> []" "\<forall>c\<in>set b. isDigit c"
      by (simp_all add: digits1_def)
    have "a @ js ''/'' @ b = a @ (47 # b) @ []" by (simp add: js_def)
    moreover have "digits1 a" "\<exists>d2. 47 # b = 47 # d2 \<and> digits1 d2" using h by simp_all
    ultimately have amt: "amount_text (a @ js ''/'' @ b)"
      unfolding amount_text_def by blast
    have 1: "amount (parseIngredient ((a @ js ''/'' @ b) @ ws1 @ un @ ws2 @ nm))
        = parseFraction (a @ js ''/'' @ b)"
      using amt h by (intro parseIngredient_amount_parts) simp_all
    show ?thesis
      unfolding 1
      using parseFraction_simple [OF a b] parseFraction_small [OF a b] by simp
  qed
  have general: "amount_text amt
        \<and> (\<forall>c\<in>set ws1. isSpace c) \<and> (\<forall>c\<in>set un. isAlpha c)
        \<and> ws2 \<noteq> [] \<and> (\<forall>c\<in>set ws2. isSpace c)
        \<and> nm \<noteq> [] \<and> (\<forall>c\<in>set nm. \<not> isLineTerminator c)
      \<longrightarrow> amount (parseIngredient (amt @ ws1 @ un @ ws2 @ nm)) = parseFraction amt"
    using parseIngredient_amount_parts [of amt ws1 un ws2 nm] by blast
  have with_unit: "amount_text amt \<and> u \<noteq> [] \<and> (\<forall>c\<in>set u. isAlpha c)
        \<and> n \<noteq> [] \<and> \<not> isSpace (hd n) \<and> (\<forall>c\<in>set n. \<not> isLineTerminator c)
      \<longrightarrow> parseIngredient (amt @ js '' '' @ u @ js '' '' @ n)
            = \<lparr>name = trim n, amount = parseFraction amt, unit = Some u\<rparr>"
    using parseIngredient_unit_line [of amt u n] by blast
  have no_unit: "amount_text amt \<and> ws \<noteq> [] \<and> (\<forall>c\<in>set ws. isSpace c)
        \<and> w \<noteq> [] \<and> (\<forall>c\<in>set w. \<not> isSpace c)
      \<longrightarrow> parseIngredient (amt @ ws @ w)
            = \<lparr>name = w, amount = parseFraction amt, unit = None\<rparr>"
    using parseIngredient_no_unit [of amt ws w] by blast
  have unmatched: "\<not> ingredient_line line
      \<longrightarrow> parseIngredient line = \<lparr>name = line, amount = Num 1, unit = None\<rparr>"
    using ingredient_re_matches_iff [of line] by (auto simp: parseIngredient_def)
  from parseIngredient_half_cup fraction general with_unit no_unit
    parseIngredient_parts [of line] unmatched
  show ?thesis by blast
qed

text \<open>
  The lines "1/2 onion", "3/4 cup milk", "2 large eggs" and "2 eggs" have the shape
  \<open><amount> <unit?> <name>\<close>; the line "salt to taste" has not.
\<close>

theorem parseIngredient_spec_witness:
  "amount (parseIngredient ((js ''1'' @ js ''/'' @ js ''2'') @ [] @ [] @ js '' '' @ js ''onion''))
     = Num (1 / 2)
   \<and> amount (parseIngredient ((js ''3'' @ js ''/'' @ js ''4'') @ js '' '' @ js ''cup'' @ js '' '' @ js ''milk''))
     = to_double (3 / 4)
   \<and> amount (parseIngredient (js ''2'' @ js '' '' @ js ''large'' @ js '' '' @ js ''eggs'')) = Num 2
   \<and> parseIngredient (js ''3/4'' @ js '' '' @ js ''cup'' @ js '' '' @ js ''milk'')
     = \<lparr>name = js ''milk'', amount = Num (3 / 4), unit = Some (js ''cup'')\<rparr>
   \<and> parseIngredient (js ''1/2'' @ js '' '' @ js ''onion'')
     = \<lparr>name = js ''onion'', amount = Num (1 / 2), unit = None\<rparr>
   \<and> ingredient_line (js ''2 eggs'')
   \<and> (\<exists>amt ws1 un ws2 nm. js ''2 eggs'' = amt @ ws1 @ un @ ws2 @ nm
         \<and> parseIngredient (js ''2 eggs'')
            = \<lparr>name = trim nm, amount = parseFraction amt,
               unit = (if un = [] then None else Some un)\<rparr>)
   \<and> \<not> ingredient_line (js ''salt to taste'')
   \<and> parseIngredient (js ''salt to taste'')
       = \<lparr>name = js ''salt to taste'', amount = Num 1, unit = None\<rparr>"
proof -
  have chars: "digits1 (js ''1'')" "digits1 (js ''2'')" "digits1 (js ''3'')" "digits1 (js ''4'')"
      "\<forall>c\<in>set (js '' ''). isSpace c" "js '' '' \<noteq> []"
      "\<forall>c\<in>set []. isSpace c" "\<forall>c\<in>set []. isAlpha c"
      "js ''cup'' \<noteq> []" "\<forall>c\<in>set (js ''cup''). isAlpha c"
      "js ''large'' \<noteq> []" "\<forall>c\<in>set (js ''large''). isAlpha c"
      "js ''milk'' \<noteq> []" "\<not> isSpace (hd (js ''milk''))" "\<forall>c\<in>set (js ''milk''). \<not> isLineTerminator c"
      "js ''eggs'' \<noteq> []" "\<forall>c\<in>set (js ''eggs''). \<not> isLineTerminator c"
      "js ''onion'' \<noteq> []" "\<forall>c\<in>set (js ''onion''). \<not> isLineTerminator c"
      "\<forall>c\<in>set (js ''onion''). \<not> isSpace c"
    by (simp_all add: digits1_def js_def isDigit_def isAlpha_def isSpace_def isLineTerminator_def)
  have amounts: "amount_text (js ''2'')" "amount_text (js ''3/4'')" "amount_text (js ''1/2'')"
  proof -
    have "js ''2'' = js ''2'' @ [] @ []" "js ''3/4'' = js ''3'' @ (47 # js ''4'') @ []"
        "js ''1/2'' = js ''1'' @ (47 # js ''2'') @ []"
      by (simp_all add: js_def)
    with chars(1-4) show "amount_text (js ''2'')" "amount_text (js ''3/4'')" "amount_text (js ''1/2'')"
      unfolding amount_text_def by blast+
  qed
  have vals: "trim (js ''milk'') = js ''milk''"
      "js_div (to_double (of_nat (decimal (js ''1'')))) (to_double (of_nat (decimal (js ''2''))))
         = Num (1 / 2)"
      "parseFraction (js ''2'') = Num 2"
      "parseFraction (js ''3/4'') = Num (3 / 4)"
      "parseFraction (js ''1/2'') = Num (1 / 2)"
    by (simp_all add: js_def isSpace_def isLineTerminator_def isDigit_def ingredient_defs number_defs)
  have small: "decimal (js ''3'') < 2 ^ 53" "0 < decimal (js ''4'')" "decimal (js ''4'') < 2 ^ 53"
      "rat_of_nat (decimal (js ''3'')) / rat_of_nat (decimal (js ''4'')) = 3 / 4"
    by (simp_all add: js_def decimal_def digitVal_def)
  have "re_match ingredient_re (js ''salt to taste'') = None"
    by (simp add: ingredient_re_def regex_defs)
  then have unmatched: "\<not> ingredient_line (js ''salt to taste'')"
    using ingredient_re_matches_iff [of "js ''salt to taste''"] by simp
  have "re_match ingredient_re (js ''2 eggs'') \<noteq> None"
    by (simp add: ingredient_re_def regex_defs)
  then have matched: "ingredient_line (js ''2 eggs'')"
    using ingredient_re_matches_iff [of "js ''2 eggs''"] by simp
  have "amount (parseIngredient ((js ''1'' @ js ''/'' @ js ''2'') @ [] @ [] @ js '' '' @ js ''onion''))
     = js_div (to_double (of_nat (decimal (js ''1'')))) (to_double (of_nat (decimal (js ''2''))))"
    by (rule parseIngredient_spec [where a = "js ''1''" and b = "js ''2''" and ?ws1.0 = "[]"
          and un = "[]" and ?ws2.0 = "js '' ''" and nm = "js ''onion''",
          THEN conjunct2, THEN conjunct1, THEN mp, THEN conjunct1])
      (rule conjI chars)+
  then have w1: "amount (parseIngredient ((js ''1'' @ js ''/'' @ js ''2'') @ [] @ [] @ js '' '' @ js ''onion''))
     = Num (1 / 2)"
    by (simp only: vals(2))
  have "amount (parseIngredient ((js ''3'' @ js ''/'' @ js ''4'') @ js '' '' @ js ''cup'' @ js '' '' @ js ''milk''))
     = to_double (of_nat (decimal (js ''3'')) / of_nat (decimal (js ''4'')))"
    by (rule parseIngredient_spec [where a = "js ''3''" and b = "js ''4''" and ?ws1.0 = "js '' ''"
          and un = "js ''cup''" and ?ws2.0 = "js '' ''" and nm = "js ''milk''",
          THEN conjunct2, THEN conjunct1, THEN mp, THEN conjunct2, THEN mp])
      (rule conjI chars small)+
  then have w2: "amount (parseIngredient ((js ''3'' @ js ''/'' @ js ''4'') @ js '' '' @ js ''cup'' @ js '' '' @ js ''milk''))
     = to_double (3 / 4)"
    by (simp only: small(4))
  have "amount (parseIngredient (js ''2'' @ js '' '' @ js ''large'' @ js '' '' @ js ''eggs''))
     = parseFraction (js ''2'')"
    by (rule parseIngredient_spec [where amt = "js ''2''" and ?ws1.0 = "js '' ''"
          and un = "js ''large''" and ?ws2.0 = "js '' ''" and nm = "js ''eggs''",
          THEN conjunct2, THEN conjunct2, THEN conjunct1, THEN mp])
      (rule conjI chars amounts)+
  then have w3: "amount (parseIngredient (js ''2'' @ js '' '' @ js ''large'' @ js '' '' @ js ''eggs'')) = Num 2"
    by (simp only: vals(3))
  have "parseIngredient (js ''3/4'' @ js '' '' @ js ''cup'' @ js '' '' @ js ''milk'')
     = \<lparr>name = trim (js ''milk''), amount = parseFraction (js ''3/4''), unit = Some (js ''cup'')\<rparr>"
    by (rule parseIngredient_spec [where amt = "js ''3/4''" and u = "js ''cup''" and n = "js ''milk''",
          THEN conjunct2, THEN conjunct2, THEN conjunct2, THEN conjunct1, THEN mp])
      (rule conjI chars amounts)+
  then have w4: "parseIngredient (js ''3/4'' @ js '' '' @ js ''cup'' @ js '' '' @ js ''milk'')
     = \<lparr>name = js ''milk'', amount = Num (3 / 4), unit = Some (js ''cup'')\<rparr>"
    by (simp only: vals(1,4))
  have "parseIngredient (js ''1/2'' @ js '' '' @ js ''onion'')
     = \<lparr>name = js ''onion'', amount = parseFraction (js ''1/2''), unit = None\<rparr>"
    by (rule parseIngredient_spec [where amt = "js ''1/2''" and ws = "js '' ''" and w = "js ''onion''",
          THEN conjunct2, THEN conjunct2, THEN conjunct2, THEN conjunct2, THEN conjunct1, THEN mp])
      (rule conjI chars amounts)+
  then have w5: "parseIngredient (js ''1/2'' @ js '' '' @ js ''onion'')
     = \<lparr>name = js ''onion'', amount = Num (1 / 2), unit = None\<rparr>"
    by (simp only: vals(5))
  have "\<exists>amt ws1 un ws2 nm. js ''2 eggs'' = amt @ ws1 @ un @ ws2 @ nm
             \<and> amount_text amt
             \<and> (\<forall>c\<in>set ws1. isSpace c) \<and> (\<forall>c\<in>set un. isAlpha c)
             \<and> ws2 \<noteq> [] \<and> (\<forall>c\<in>set ws2. isSpace c)
             \<and> nm \<noteq> [] \<and> (\<forall>c\<in>set nm. \<not> isLineTerminator c)
             \<and> parseIngredient (js ''2 eggs'')
                 = \<lparr>name = trim nm, amount = parseFraction amt,
                    unit = (if un = [] then None else Some un)\<rparr>"
    by (rule parseIngredient_spec [where line = "js ''2 eggs''",
          THEN conjunct2, THEN conjunct2, THEN conjunct2, THEN conjunct2, THEN conjunct2,
          THEN conjunct1, THEN mp])
      (rule matched)
  then have w6: "\<exists>amt ws1 un ws2 nm. js ''2 eggs'' = amt @ ws1 @ un @ ws2 @ nm
         \<and> parseIngredient (js ''2 eggs'')
            = \<lparr>name = trim nm, amount = parseFraction amt,
               unit = (if un = [] then None else Some un)\<rparr>"
    by blast
  have w7: "parseIngredient (js ''salt to taste'')
       = \<lparr>name = js ''salt to taste'', amount = Num 1, unit = None\<rparr>"
    by (rule parseIngredient_spec [where line = "js ''salt to taste''",
          THEN conjunct2, THEN conjunct2, THEN conjunct2, THEN conjunct2, THEN conjunct2,
          THEN conjunct2, THEN mp])
      (rule unmatched)
  from w1 w2 w3 w4 w5 matched w6 unmatched w7 show ?thesis by (intro conjI)
qed

section \<open>The content classifier: properties\<close>

lemmas nav_defs =
  isNavigationText_def navPatterns_def navWords_def isRecipeDescription_def
  descriptionPatterns_def toLowerCase_def trim_def

lemma js_Cons: "js (x # w) = of_char x # js w" and js_Nil: "js [] = []"
  by (simp_all add: js_def)

lemma ms_lit:
  "ms (lit w) (b, r, c) =
     (if startsWith r (js w) then [(rev (js w) @ b, drop (length w) r, c)] else [])"
proof (induction w arbitrary: b r)
  case Nil
  show ?case by (simp add: lit_def js_Nil)
next
  case (Cons x w)
  have lit: "lit (x # w) = Seq (Chr (One (of_char x))) (lit w)" by (simp add: lit_def)
  show ?case
  proof (cases r)
    case Nil
    then show ?thesis by (simp add: lit js_Cons)
  next
    case (Cons y r')
    then show ?thesis by (simp add: lit js_Cons Cons.IH)
  qed
qed

lemma startsWith_append: "startsWith r w \<longleftrightarrow> (\<exists>post. r = w @ post)"
  by (induction r w rule: startsWith.induct) auto

lemma headIsWord_append: "w \<noteq> [] \<Longrightarrow> headIsWord (w @ r) = isWordChar (hd w)"
  by (cases w) (simp_all add: headIsWord_def)

lemma ms_word_pattern:
  assumes "w \<noteq> []" and "isWordChar (hd (js w))" and "isWordChar (last (js w))"
  shows "ms (seqs [WordB, lit w, WordB]) (b, r, c) \<noteq> [] \<longleftrightarrow>
     (\<exists>post. r = js w @ post \<and> \<not> headIsWord b \<and> \<not> headIsWord post)"
proof -
  have ne: "js w \<noteq> []" using assms(1) by (simp add: js_def)
  have len: "length (js w) = length w" by (simp add: js_def)
  have hb: "headIsWord (rev (js w) @ b) = True"
    using ne assms(3) by (simp add: headIsWord_append hd_rev)
  show ?thesis
  proof
    assume m: "ms (seqs [WordB, lit w, WordB]) (b, r, c) \<noteq> []"
    then have 1: "headIsWord b \<noteq> headIsWord r"
      by (auto simp: seqs_def split: if_splits)
    with m have 2: "startsWith r (js w)"
      by (auto simp: seqs_def ms_lit split: if_splits)
    then obtain post where r: "r = js w @ post" by (auto simp: startsWith_append)
    have hr: "headIsWord r" using r ne assms(2) by (simp add: headIsWord_append)
    from m 1 2 have 3: "headIsWord (rev (js w) @ b) \<noteq> headIsWord (drop (length w) r)"
      by (auto simp: seqs_def ms_lit split: if_splits)
    have "drop (length w) r = post" using r len by simp
    with 3 hb have "\<not> headIsWord post" by simp
    with 1 hr r show "\<exists>post. r = js w @ post \<and> \<not> headIsWord b \<and> \<not> headIsWord post" by blast
  next
    assume "\<exists>post. r = js w @ post \<and> \<not> headIsWord b \<and> \<not> headIsWord post"
    then obtain post where r: "r = js w @ post" and nb: "\<not> headIsWord b" and np: "\<not> headIsWord post"
      by blast
    have hr: "headIsWord r" using r ne assms(2) by (simp add: headIsWord_append)
    have sw: "startsWith r (js w)" using r by (auto simp: startsWith_append)
    have dr: "drop (length w) r = post" using r len by simp
    show "ms (seqs [WordB, lit w, WordB]) (b, r, c) \<noteq> []"
      using nb hr sw np hb by (simp add: seqs_def ms_lit dr)
  qed
qed

lemma re_test_word_pattern:
  assumes "w \<noteq> []" and "isWordChar (hd (js w))" and "isWordChar (last (js w))"
  shows "re_test (seqs [WordB, lit w, WordB]) t \<longleftrightarrow> whole_word_in (js w) t"
proof -
  have "re_test (seqs [WordB, lit w, WordB]) t \<longleftrightarrow>
      (\<exists>pre r. t = pre @ r \<and> ms (seqs [WordB, lit w, WordB]) (rev pre @ [], r, []) \<noteq> [])"
    unfolding re_test_def by (simp only: re_search_None_iff) blast
  also have "\<dots> \<longleftrightarrow> (\<exists>pre r. t = pre @ r
      \<and> (\<exists>post. r = js w @ post \<and> \<not> headIsWord (rev pre @ []) \<and> \<not> headIsWord post))"
    by (simp only: ms_word_pattern [OF assms])
  also have "\<dots> \<longleftrightarrow> whole_word_in (js w) t"
    unfolding whole_word_in_def by auto
  finally show ?thesis .
qed

lemma navWords_word_ends:
  "\<forall>w\<in>set navWords. w \<noteq> [] \<and> isWordChar (hd (js w)) \<and> isWordChar (last (js w))"
  by (simp add: navWords_def js_def isWordChar_def isAlpha_def)

lemma find_navPatterns:
  "find (\<lambda>p. re_test p t) navPatterns \<noteq> None \<longleftrightarrow> (\<exists>w\<in>set navWords. whole_word_in (js w) t)"
proof -
  have "find (\<lambda>p. re_test p t) navPatterns \<noteq> None
      \<longleftrightarrow> (\<exists>w\<in>set navWords. re_test (seqs [WordB, lit w, WordB]) t)"
    by (auto simp: find_None_iff navPatterns_def)
  also have "\<dots> \<longleftrightarrow> (\<exists>w\<in>set navWords. whole_word_in (js w) t)"
    using navWords_word_ends by (auto simp: re_test_word_pattern)
  finally show ?thesis .
qed

lemma nav_subscribe_instruction: "isNavigationText (js ''Subscribe to our newsletter'') True"
  by (simp add: nav_defs regex_defs)

lemma nav_subscribe_other: "isNavigationText (js ''Subscribe to our newsletter'') False"
  by (simp add: nav_defs regex_defs)

lemma nav_cook_no_keyword:
  "find (\<lambda>p. re_test p (toLowerCase (js ''Cook for about 30 minutes, stirring occasionally'')))
     navPatterns = None"
  by (simp add: nav_defs regex_defs)

lemma nav_cook_description:
  "isRecipeDescription (js ''Cook for about 30 minutes, stirring occasionally'')"
  by (simp add: nav_defs regex_defs)

lemma nav_cook_instruction:
  "isNavigationText (js ''Cook for about 30 minutes, stirring occasionally'') True"
  using nav_cook_description by (simp add: isNavigationText_def)

lemma nav_cook_other:
  "\<not> isNavigationText (js ''Cook for about 30 minutes, stirring occasionally'') False"
  using nav_cook_no_keyword by (simp add: isNavigationText_def js_def)

lemma nav_cook_period_instruction:
  "\<not> isNavigationText (js ''Cook for about 30 minutes, stirring occasionally.'') True"
  by (simp add: nav_defs regex_defs)

lemma nav_cook_period_other:
  "\<not> isNavigationText (js ''Cook for about 30 minutes, stirring occasionally.'') False"
  by (simp add: nav_defs regex_defs)

lemma nav_homemade:
  "str_includes (toLowerCase (js ''Add the homemade stock.'')) (js ''home'')
   \<and> \<not> isNavigationText (js ''Add the homemade stock.'') True
   \<and> \<not> isNavigationText (js ''Add the homemade stock.'') False"
  by (simp add: nav_defs regex_defs)

text \<open>
  C5, as stated: "Subscribe to our newsletter" is rejected and "Cook for about 30
  minutes, stirring occasionally" is not rejected, in the instruction context and in the
  other context.  This fails: in the instruction context the second line is rejected.
\<close>

theorem isNavigationText_cook_line_counterexample:
  "\<not> (isNavigationText (js ''Subscribe to our newsletter'') True
      \<and> isNavigationText (js ''Subscribe to our newsletter'') False
      \<and> \<not> isNavigationText (js ''Cook for about 30 minutes, stirring occasionally'') True
      \<and> \<not> isNavigationText (js ''Cook for about 30 minutes, stirring occasionally'') False)"
  using nav_cook_instruction by simp

lemma isNavigationText_iff:
  "isNavigationText text ctx \<longleftrightarrow>
     (\<exists>w\<in>set navWords. whole_word_in (js w) (toLowerCase text))
     \<or> (if ctx then isRecipeDescription text else length text > 500)"
proof -
  have "(case find (\<lambda>p. re_test p (toLowerCase text)) navPatterns of None \<Rightarrow> False | Some _ \<Rightarrow> True)
      \<longleftrightarrow> (\<exists>w\<in>set navWords. whole_word_in (js w) (toLowerCase text))"
    using find_navPatterns [of "toLowerCase text"] by (auto split: option.splits)
  then show ?thesis
    by (simp add: isNavigationText_def Let_def)
qed

text \<open>
  C5, amended.  The navigation test matches whole words, not substrings: a line is
  rejected for a navigation keyword exactly when one of the keywords occurs in its
  lower-cased text with no word character directly before or after it; besides that, the
  instruction context rejects a description and the other context a line of more than 500
  characters.  "Subscribe to our newsletter" is rejected in both contexts; a line that
  contains "home" only inside "homemade" is not rejected; no navigation pattern matches
  "Cook for about 30 minutes, stirring occasionally", which is not rejected in the
  non-instruction context.  In the instruction context that line is rejected, by the
  description filter (a line of 10 to 100 characters without a period); with a final
  period it is rejected in neither context.
\<close>

theorem isNavigationText_word_boundaries:
  "(isNavigationText text ctx \<longleftrightarrow>
     (\<exists>w\<in>set navWords. whole_word_in (js w) (toLowerCase text))
     \<or> (if ctx then isRecipeDescription text else length text > 500))
   \<and> isNavigationText (js ''Subscribe to our newsletter'') True
   \<and> isNavigationText (js ''Subscribe to our newsletter'') False
   \<and> str_includes (toLowerCase (js ''Add the homemade stock.'')) (js ''home'')
   \<and> \<not> isNavigationText (js ''Add the homemade stock.'') True
   \<and> \<not> isNavigationText (js ''Add the homemade stock.'') False
   \<and> find (\<lambda>p. re_test p (toLowerCase (js ''Cook for about 30 minutes, stirring occasionally'')))
        navPatterns = None
   \<and> \<not> isNavigationText (js ''Cook for about 30 minutes, stirring occasionally'') False
   \<and> isRecipeDescription (js ''Cook for about 30 minutes, stirring occasionally'')
   \<and> isNavigationText (js ''Cook for about 30 minutes, stirring occasionally'') True
   \<and> \<not> isNavigationText (js ''Cook for about 30 minutes, stirring occasionally.'') True
   \<and> \<not> isNavigationText (js ''Cook for about 30 minutes, stirring occasionally.'') False"
  using isNavigationText_iff [of "text" ctx]
    nav_subscribe_instruction nav_subscribe_other nav_homemade nav_cook_no_keyword
    nav_cook_other nav_cook_description nav_cook_instruction nav_cook_period_instruction
    nav_cook_period_other
  by blast

end
